theory Spec2Isabelle
  imports Complex_Main "HOL-Library.Stream"
begin

section \<open>Drone-Jamming: the jam detection and response loop\<close>

text \<open>
  A shallow embedding of \<^verbatim>\<open>src/tempCodeRunnerFile.py\<close>. Python floats are read as
  real numbers. The module-level state of the program (the generator behind
  \<^verbatim>\<open>random.choice\<close> and the log written by \<^verbatim>\<open>logging\<close>/\<^verbatim>\<open>print\<close>) is the record
  \<open>world\<close>, passed through every function that touches it. An exception is a value
  \<open>Inl e\<close>; the state reached when it was raised is returned beside it, as mutations made
  before a Python exception stay in place. A call that never returns is \<open>None\<close>.
\<close>

subsection \<open>Exceptions, log lines, ambient state\<close>

datatype error =
    IndexError               \<comment> \<open>\<^verbatim>\<open>random.choice\<close> on an empty sequence, \<^verbatim>\<open>prediction[0]\<close> out of range\<close>
  | ValueError_empty_input   \<comment> \<open>ValueError of \<^verbatim>\<open>fft\<close> / \<^verbatim>\<open>np.max\<close> on an empty array\<close>
  | ValueError_n_features    \<comment> \<open>ValueError of \<^verbatim>\<open>clf.predict\<close>: wrong number of features\<close>
  | InvalidToken             \<comment> \<open>raised by \<^verbatim>\<open>Fernet.decrypt\<close>\<close>
  | UnicodeEncodeError
  | UnicodeDecodeError

text \<open>One constructor per message the source logs or prints, in the source's wording.\<close>

datatype log_event =
    MaxAmplitude real        \<comment> \<open>"Max amplitude detected: ..."\<close>
  | AnomalyDetected          \<comment> \<open>"Anomaly Detected: Potential Jamming Signal!"\<close>
  | JammingPattern           \<comment> \<open>"Jamming Pattern Detected by Machine Learning Model"\<close>
  | SwitchedTo int           \<comment> \<open>"Switched to Channel ... due to interference."\<close>
  | HoppedTo int             \<comment> \<open>"Frequency hopping: Switched to Channel ..."\<close>
  | RecoveryAttempt          \<comment> \<open>"Jamming detected. Attempting recovery..."\<close>
  | RecoveryInitiated        \<comment> \<open>"Recovery initiated: Switched to a new channel."\<close>
  | MessageEncrypted         \<comment> \<open>"Message encrypted for secure transmission"\<close>
  | MessageDecrypted         \<comment> \<open>"Message decrypted successfully"\<close>

record world =
  random_draws :: "nat stream"     \<comment> \<open>the future outputs of the \<^verbatim>\<open>random\<close> module\<close>
  log_lines :: "log_event list"    \<comment> \<open>what has been logged so far, oldest first\<close>

definition emit :: "log_event \<Rightarrow> world \<Rightarrow> world" where
  "emit e w = w\<lparr>log_lines := log_lines w @ [e]\<rparr>"

text \<open>
  \<^verbatim>\<open>random.choice(seq)\<close>: IndexError on an empty sequence, otherwise \<^verbatim>\<open>seq[i]\<close> for an
  index \<open>i\<close> below \<^verbatim>\<open>len(seq)\<close>. One draw of the generator is used per call and reduced
  modulo the length, so every index below the length can come out and no other.
\<close>

definition random_choice :: "'a list \<Rightarrow> world \<Rightarrow> (error + 'a) \<times> world" where
  "random_choice xs w =
     (if xs = [] then (Inl IndexError, w)
      else (Inr (xs ! (shd (random_draws w) mod length xs)),
            w\<lparr>random_draws := stl (random_draws w)\<rparr>))"

subsection \<open>generate_signal\<close>

text \<open>
  \<^verbatim>\<open>np.linspace(start, stop, num)\<close> with the default \<^verbatim>\<open>endpoint=True\<close>: \<open>num\<close> points with
  step \<open>(stop - start) / (num - 1)\<close>, the last one set to \<open>stop\<close>.
\<close>

definition linspace :: "real \<Rightarrow> real \<Rightarrow> nat \<Rightarrow> real list" where
  "linspace start stop num =
     (if num = 0 then []
      else if num = 1 then [start]
      else (map (\<lambda>i. start + real i * ((stop - start) / real (num - 1))) [0..<num])
             [num - 1 := stop])"

text \<open>
  \<open>standard_normal i\<close> is the \<open>i\<close>-th variate returned by the call
  \<^verbatim>\<open>np.random.normal(size=time_points.shape)\<close>.
\<close>

definition generate_signal :: "(nat \<Rightarrow> real) \<Rightarrow> real \<Rightarrow> real \<Rightarrow> real list" where
  "generate_signal standard_normal frequency noise_level =
     (let time_points = linspace 0 1 500;
          signal = map (\<lambda>t. sin (2 * pi * frequency * t)) time_points;
          noise = map (\<lambda>i. noise_level * standard_normal i) [0..<length time_points]
      in map2 (+) signal noise)"

subsection \<open>detect_anomaly\<close>

text \<open>
  \<^verbatim>\<open>scipy.fft.fft\<close> on a one-dimensional real array: the discrete Fourier transform
  \<open>y[k] = \<Sum>n<N. x[n] * exp (-2\<pi>i k n / N)\<close>; an empty array is rejected with ValueError.
\<close>

definition fft :: "real list \<Rightarrow> error + complex list" where
  "fft xs =
     (if xs = [] then Inl ValueError_empty_input
      else Inr (map (\<lambda>k. \<Sum>n<length xs.
                       complex_of_real (xs ! n) *
                       cis (- (2 * pi * real k * real n / real (length xs))))
                  [0..<length xs]))"

text \<open>\<^verbatim>\<open>np.max\<close>: ValueError on an empty array, else the running maximum.\<close>

definition np_max :: "real list \<Rightarrow> error + real" where
  "np_max xs = (if xs = [] then Inl ValueError_empty_input else Inr (fold max (tl xs) (hd xs)))"

definition detect_anomaly ::
  "real list \<Rightarrow> real \<Rightarrow> world \<Rightarrow> (error + bool \<times> real) \<times> world" where
  "detect_anomaly signal threshold w =
     (case fft signal of
        Inl e \<Rightarrow> (Inl e, w)
      | Inr spectrum \<Rightarrow>
          (case np_max (map cmod spectrum) of
             Inl e \<Rightarrow> (Inl e, w)
           | Inr max_amplitude \<Rightarrow>
               (let w1 = emit (MaxAmplitude max_amplitude) w
                in if max_amplitude > threshold
                   then (Inr (True, max_amplitude), emit AnomalyDetected w1)
                   else (Inr (False, max_amplitude), w1))))"

subsection \<open>detect_jamming_pattern\<close>

text \<open>
  The fitted \<^verbatim>\<open>RandomForestClassifier\<close>: the number of features it was fitted on and the
  label it gives to a row of that many features.
\<close>

record classifier =
  n_features_in :: nat
  decision :: "real list \<Rightarrow> int"

text \<open>
  Modelled from the spec: \<^verbatim>\<open>clf.predict\<close> is scikit-learn's and is not part of the
  repository's source. \<open>predict\<close> "requires the waveform to have the same sample length
  the model was trained on; otherwise fails with DimensionMismatch" (here the
  ValueError \<open>ValueError_n_features\<close>); on rows of the fitted length it returns one label
  per row.
\<close>

definition predict :: "classifier \<Rightarrow> real list list \<Rightarrow> error + int list" where
  "predict clf X =
     (if list_all (\<lambda>row. length row = n_features_in clf) X
      then Inr (map (decision clf) X)
      else Inl ValueError_n_features)"

definition detect_jamming_pattern ::
  "classifier \<Rightarrow> real list \<Rightarrow> world \<Rightarrow> (error + bool) \<times> world" where
  "detect_jamming_pattern clf signal w =
     (case predict clf [signal] of
        Inl e \<Rightarrow> (Inl e, w)
      | Inr prediction \<Rightarrow>
          (case prediction of
             [] \<Rightarrow> (Inl IndexError, w)
           | p # _ \<Rightarrow>
               if p = 1 then (Inr True, emit JammingPattern w)
               else (Inr False, w)))"

subsection \<open>CommunicationChannel\<close>

record communication_channel =
  channels :: "int list"
  current_channel :: int

text \<open>
  The methods below have no \<^verbatim>\<open>return\<close> statement: a call evaluates to Python's
  \<^verbatim>\<open>None\<close>, written \<open>None :: int option\<close> in the result.
\<close>

definition switch_channel ::
  "communication_channel \<Rightarrow> world \<Rightarrow> (error + int option) \<times> communication_channel \<times> world" where
  "switch_channel self w =
     (let available_channels = filter (\<lambda>ch. ch \<noteq> current_channel self) (channels self)
      in case random_choice available_channels w of
           (Inl e, w1) \<Rightarrow> (Inl e, self, w1)
         | (Inr c, w1) \<Rightarrow>
             (Inr None, self\<lparr>current_channel := c\<rparr>, emit (SwitchedTo c) w1))"

text \<open>The \<^verbatim>\<open>while\<close> loop of \<^verbatim>\<open>frequency_hopping\<close>; it draws until the channel differs.\<close>

partial_function (option) hopping_loop ::
  "communication_channel \<Rightarrow> int \<Rightarrow> world \<Rightarrow> ((error + int) \<times> world) option" where
  "hopping_loop self new_channel w =
     (if new_channel = current_channel self then
        (case random_choice (channels self) w of
           (Inl e, w1) \<Rightarrow> Some (Inl e, w1)
         | (Inr c, w1) \<Rightarrow> hopping_loop self c w1)
      else Some (Inr new_channel, w))"

definition frequency_hopping ::
  "communication_channel \<Rightarrow> world \<Rightarrow>
     ((error + int option) \<times> communication_channel \<times> world) option" where
  "frequency_hopping self w =
     (case random_choice (channels self) w of
        (Inl e, w1) \<Rightarrow> Some (Inl e, self, w1)
      | (Inr c, w1) \<Rightarrow>
          (case hopping_loop self c w1 of
             None \<Rightarrow> None
           | Some (Inl e, w2) \<Rightarrow> Some (Inl e, self, w2)
           | Some (Inr new_channel, w2) \<Rightarrow>
               Some (Inr None, self\<lparr>current_channel := new_channel\<rparr>,
                     emit (HoppedTo new_channel) w2)))"

definition recovery_strategy ::
  "communication_channel \<Rightarrow> world \<Rightarrow> (error + int option) \<times> communication_channel \<times> world" where
  "recovery_strategy self w =
     (case switch_channel self (emit RecoveryAttempt w) of
        (Inl e, self1, w1) \<Rightarrow> (Inl e, self1, w1)
      | (Inr _, self1, w1) \<Rightarrow> (Inr None, self1, emit RecoveryInitiated w1))"

subsection \<open>encrypt_message, decrypt_message\<close>

text \<open>
  A Python \<^verbatim>\<open>str\<close> is a list of code points, \<^verbatim>\<open>bytes\<close> a list of numbers below 256.
  \<^verbatim>\<open>str.encode()\<close> and \<^verbatim>\<open>bytes.decode()\<close> are strict UTF-8: a surrogate cannot be
  encoded; an overlong form, a surrogate, a value above 10FFFF or a broken sequence cannot
  be decoded.
\<close>

definition utf8_char :: "nat \<Rightarrow> error + nat list" where
  "utf8_char cp =
     (if cp < 0x80 then Inr [cp]
      else if cp < 0x800 then Inr [0xC0 + cp div 64, 0x80 + cp mod 64]
      else if cp < 0x10000 then
        (if 0xD800 \<le> cp \<and> cp < 0xE000 then Inl UnicodeEncodeError
         else Inr [0xE0 + cp div 4096, 0x80 + (cp div 64) mod 64, 0x80 + cp mod 64])
      else if cp < 0x110000 then
        Inr [0xF0 + cp div 262144, 0x80 + (cp div 4096) mod 64,
             0x80 + (cp div 64) mod 64, 0x80 + cp mod 64]
      else Inl UnicodeEncodeError)"

fun encode :: "nat list \<Rightarrow> error + nat list" where
  "encode [] = Inr []"
| "encode (cp # s) =
     (case utf8_char cp of
        Inl e \<Rightarrow> Inl e
      | Inr bs \<Rightarrow> (case encode s of Inl e \<Rightarrow> Inl e | Inr rest \<Rightarrow> Inr (bs @ rest)))"

definition continuation :: "nat \<Rightarrow> bool" where
  "continuation b = (0x80 \<le> b \<and> b < 0xC0)"

definition push :: "nat \<Rightarrow> error + nat list \<Rightarrow> error + nat list" where
  "push cp r = (case r of Inl e \<Rightarrow> Inl e | Inr s \<Rightarrow> Inr (cp # s))"

fun decode :: "nat list \<Rightarrow> error + nat list" where
  "decode [] = Inr []"
| "decode (b0 # bs) =
     (if b0 < 0x80 then push b0 (decode bs)
      else if 0xC2 \<le> b0 \<and> b0 < 0xE0 then
        (case bs of
           b1 # r \<Rightarrow>
             if continuation b1
             then push ((b0 - 0xC0) * 64 + (b1 - 0x80)) (decode r)
             else Inl UnicodeDecodeError
         | _ \<Rightarrow> Inl UnicodeDecodeError)
      else if 0xE0 \<le> b0 \<and> b0 < 0xF0 then
        (case bs of
           b1 # b2 # r \<Rightarrow>
             (let cp = (b0 - 0xE0) * 4096 + (b1 - 0x80) * 64 + (b2 - 0x80)
              in if continuation b1 \<and> continuation b2 \<and> 0x800 \<le> cp
                    \<and> \<not> (0xD800 \<le> cp \<and> cp < 0xE000)
                 then push cp (decode r)
                 else Inl UnicodeDecodeError)
         | _ \<Rightarrow> Inl UnicodeDecodeError)
      else if 0xF0 \<le> b0 \<and> b0 < 0xF5 then
        (case bs of
           b1 # b2 # b3 # r \<Rightarrow>
             (let cp = (b0 - 0xF0) * 262144 + (b1 - 0x80) * 4096
                        + (b2 - 0x80) * 64 + (b3 - 0x80)
              in if continuation b1 \<and> continuation b2 \<and> continuation b3
                    \<and> 0x10000 \<le> cp \<and> cp < 0x110000
                 then push cp (decode r)
                 else Inl UnicodeDecodeError)
         | _ \<Rightarrow> Inl UnicodeDecodeError)
      else Inl UnicodeDecodeError)"

text \<open>
  The object returned by \<^verbatim>\<open>setup_encryption\<close>. \<^verbatim>\<open>cryptography.fernet\<close> is a library
  outside the repository: its two methods are parameters of the model.
\<close>

record cipher_suite =
  encrypt :: "nat list \<Rightarrow> nat list"
  decrypt :: "nat list \<Rightarrow> error + nat list"

definition encrypt_message ::
  "cipher_suite \<Rightarrow> nat list \<Rightarrow> world \<Rightarrow> (error + nat list) \<times> world" where
  "encrypt_message cipher message w =
     (case encode message of
        Inl e \<Rightarrow> (Inl e, w)
      | Inr plain \<Rightarrow> (Inr (encrypt cipher plain), emit MessageEncrypted w))"

definition decrypt_message ::
  "cipher_suite \<Rightarrow> nat list \<Rightarrow> world \<Rightarrow> (error + nat list) \<times> world" where
  "decrypt_message cipher encrypted_message w =
     (case decrypt cipher encrypted_message of
        Inl e \<Rightarrow> (Inl e, w)
      | Inr plain \<Rightarrow>
          (case decode plain of
             Inl e \<Rightarrow> (Inl e, w)
           | Inr decrypted_message \<Rightarrow> (Inr decrypted_message, emit MessageDecrypted w)))"

subsection \<open>JamResistanceController\<close>

record controller =
  channel :: communication_channel
  detector :: classifier
  encryption :: cipher_suite

definition message :: "nat list" where
  "message = map of_char ''Drone communication secured.''"

text \<open>The result is the returned \<^verbatim>\<open>max_amplitude\<close>, or the exception that ended the call.\<close>

definition monitor_and_respond ::
  "controller \<Rightarrow> real list \<Rightarrow> world \<Rightarrow> ((error + real) \<times> controller \<times> world) option" where
  "monitor_and_respond self signal w =
     (case detect_anomaly signal 100 w of
        (Inl e, w1) \<Rightarrow> Some (Inl e, self, w1)
      | (Inr (anomaly_detected, max_amplitude), w1) \<Rightarrow>
     (case (if anomaly_detected then switch_channel (channel self) w1
            else (Inr None, channel self, w1)) of
        (Inl e, ch2, w2) \<Rightarrow> Some (Inl e, self\<lparr>channel := ch2\<rparr>, w2)
      | (Inr _, ch2, w2) \<Rightarrow>
     (case detect_jamming_pattern (detector self) signal w2 of
        (Inl e, w3) \<Rightarrow> Some (Inl e, self\<lparr>channel := ch2\<rparr>, w3)
      | (Inr jamming, w3) \<Rightarrow>
     (case (if jamming then switch_channel ch2 w3 else (Inr None, ch2, w3)) of
        (Inl e, ch4, w4) \<Rightarrow> Some (Inl e, self\<lparr>channel := ch4\<rparr>, w4)
      | (Inr _, ch4, w4) \<Rightarrow>
     (case frequency_hopping ch4 w4 of
        None \<Rightarrow> None
      | Some (Inl e, ch5, w5) \<Rightarrow> Some (Inl e, self\<lparr>channel := ch5\<rparr>, w5)
      | Some (Inr _, ch5, w5) \<Rightarrow>
     (case recovery_strategy ch5 w5 of
        (Inl e, ch6, w6) \<Rightarrow> Some (Inl e, self\<lparr>channel := ch6\<rparr>, w6)
      | (Inr _, ch6, w6) \<Rightarrow>
     (case encrypt_message (encryption self) message w6 of
        (Inl e, w7) \<Rightarrow> Some (Inl e, self\<lparr>channel := ch6\<rparr>, w7)
      | (Inr encrypted_message, w7) \<Rightarrow>
     (case decrypt_message (encryption self) encrypted_message w7 of
        (Inl e, w8) \<Rightarrow> Some (Inl e, self\<lparr>channel := ch6\<rparr>, w8)
      | (Inr _, w8) \<Rightarrow> Some (Inr max_amplitude, self\<lparr>channel := ch6\<rparr>, w8)))))))))"

section \<open>Notions used to state the properties\<close>

text \<open>
  The discrete Fourier transform in the usual notation, and the largest magnitude over its
  bins: what the specification calls the peak amplitude of a waveform.
\<close>

definition dft :: "real list \<Rightarrow> nat \<Rightarrow> complex" where
  "dft x k = (\<Sum>n<length x. complex_of_real (x ! n) *
                exp (- (2 * complex_of_real pi * \<i> * of_nat k * of_nat n / of_nat (length x))))"

definition peak_amplitude :: "real list \<Rightarrow> real" where
  "peak_amplitude x = Max ((\<lambda>k. cmod (dft x k)) ` {..<length x})"

text \<open>
  The sampling the specification describes for \<open>generate\<close>: \<open>num\<close> evenly spaced points
  of the half-open interval \<open>[0, 1)\<close>, the sine on them, and the same noise term.
\<close>

definition half_open_points :: "nat \<Rightarrow> real list" where
  "half_open_points num = map (\<lambda>i. real i / real num) [0..<num]"

definition generate_half_open :: "(nat \<Rightarrow> real) \<Rightarrow> real \<Rightarrow> real \<Rightarrow> real list" where
  "generate_half_open standard_normal frequency noise_level =
     map2 (+) (map (\<lambda>t. sin (2 * pi * frequency * t)) (half_open_points 500))
              (map (\<lambda>i. noise_level * standard_normal i) [0..<500])"

text \<open>
  A source of draws on which no channel is drawn forever: from every position on, and for
  every channel \<open>c\<close>, some later draw selects a channel other than \<open>c\<close>. The loop of
  \<open>frequency_hopping\<close> ends exactly when such a draw comes.
\<close>

definition fair_draws :: "int list \<Rightarrow> nat stream \<Rightarrow> bool" where
  "fair_draws chans rs = (\<forall>n c. \<exists>k. chans ! (rs !! (n + k) mod length chans) \<noteq> c)"

text \<open>
  What the two calls at the end of \<open>monitor_and_respond\<close> yield for a cipher: the exception
  of \<^verbatim>\<open>decrypt\<close> or of \<^verbatim>\<open>.decode()\<close>, or the decrypted text.
\<close>

definition securing_outcome :: "cipher_suite \<Rightarrow> error + nat list" where
  "securing_outcome cipher =
     (case decrypt cipher (encrypt cipher message) of
        Inl e \<Rightarrow> Inl e
      | Inr plain \<Rightarrow> decode plain)"

text \<open>
  The messages of the specification are strings of Unicode scalar values: code points below
  110000 (hexadecimal) outside the surrogate range. These are the strings UTF-8 encodes.
\<close>

definition scalar_value :: "nat \<Rightarrow> bool" where
  "scalar_value cp = (cp < 0xD800 \<or> (0xE000 \<le> cp \<and> cp < 0x110000))"

text \<open>
  Modelled from the spec: \<^verbatim>\<open>cryptography.fernet\<close> is a library and not part of the
  repository's source. The specification's words on it: \<open>decrypt\<close> "must satisfy
  decrypt(key, encrypt(key, m)) == m for all m; decrypt fails with DecryptionFailed on
  corrupted input or wrong key". A cipher object stands for one key; a corrupted token and
  a token made with another key are byte strings that \<open>encrypt\<close> of this key did not
  produce; DecryptionFailed is Fernet's \<open>InvalidToken\<close>.
\<close>

definition secure_channel_law :: "cipher_suite \<Rightarrow> bool" where
  "secure_channel_law cipher =
     ((\<forall>plain. decrypt cipher (encrypt cipher plain) = Inr plain)
      \<and> (\<forall>token. token \<notin> range (encrypt cipher) \<longrightarrow> decrypt cipher token = Inl InvalidToken))"



fun is_hop :: "log_event \<Rightarrow> bool" where
  "is_hop (HoppedTo c) = True"
| "is_hop e = False"

fun channel_history :: "int \<Rightarrow> log_event list \<Rightarrow> int list" where
  "channel_history c [] = [c]"
| "channel_history c (SwitchedTo c' # es) = c # channel_history c' es"
| "channel_history c (HoppedTo c' # es) = c # channel_history c' es"
| "channel_history c (e # es) = channel_history c es"

subsection \<open>Concrete inputs\<close>

definition counting_draws :: "nat stream" where
  "counting_draws = siterate Suc 0"

definition quiet_world :: world where
  "quiet_world = \<lparr>random_draws = counting_draws, log_lines = []\<rparr>"

definition five_channels :: "int \<Rightarrow> communication_channel" where
  "five_channels c = \<lparr>channels = [1, 2, 3, 4, 5], current_channel = c\<rparr>"

definition constant_classifier :: "nat \<Rightarrow> int \<Rightarrow> classifier" where
  "constant_classifier n label = \<lparr>n_features_in = n, decision = (\<lambda>row. label)\<rparr>"

text \<open>
  A cipher that leaves the bytes as they are, and a keyed one whose token is the key followed
  by the plaintext, rejected by \<open>decrypt\<close> unless it starts with the key.
\<close>

definition plain_cipher :: cipher_suite where
  "plain_cipher = \<lparr>encrypt = (\<lambda>plain. plain), decrypt = (\<lambda>token. Inr token)\<rparr>"

definition keyed_cipher :: "nat \<Rightarrow> cipher_suite" where
  "keyed_cipher key =
     \<lparr>encrypt = (\<lambda>plain. key # plain),
      decrypt = (\<lambda>token. case token of
                            [] \<Rightarrow> Inl InvalidToken
                          | k # plain \<Rightarrow> if k = key then Inr plain else Inl InvalidToken)\<rparr>"

definition small_controller :: "int \<Rightarrow> int \<Rightarrow> cipher_suite \<Rightarrow> controller" where
  "small_controller c label cipher =
     \<lparr>channel = five_channels c, detector = constant_classifier 1 label, encryption = cipher\<rparr>"

section \<open>Auxiliary facts\<close>

lemma np_max_Max: "xs \<noteq> [] \<Longrightarrow> np_max xs = Inr (Max (set xs))"
  by (cases xs) (simp_all add: np_max_def Max.set_eq_fold[symmetric] del: set_simps)

lemma cis_dft: "cis (- (2 * pi * real k * real n / real N)) =
   exp (- (2 * complex_of_real pi * \<i> * of_nat k * of_nat n / of_nat N))"
  by (simp add: cis_conv_exp algebra_simps)

lemma fft_dft: "xs \<noteq> [] \<Longrightarrow> fft xs = Inr (map (dft xs) [0..<length xs])"
  by (simp add: fft_def dft_def cis_dft)

lemma peak_spectrum: "xs \<noteq> [] \<Longrightarrow> np_max (map cmod (map (dft xs) [0..<length xs])) = Inr (peak_amplitude xs)"
  apply (subst np_max_Max)
   apply simp
  apply (simp add: peak_amplitude_def image_image atLeast0LessThan)
  done

lemma peak_nonneg: "xs \<noteq> [] \<Longrightarrow> 0 \<le> peak_amplitude xs"
proof -
  assume "xs \<noteq> []"
  then have "cmod (dft xs 0) \<in> (\<lambda>k. cmod (dft xs k)) ` {..<length xs}" by auto
  then have "cmod (dft xs 0) \<le> peak_amplitude xs"
    unfolding peak_amplitude_def by (intro Max_ge) auto
  then show ?thesis using norm_ge_zero[of "dft xs 0"] by linarith
qed

lemma detect_anomaly_eq:
  "signal \<noteq> [] \<Longrightarrow> detect_anomaly signal threshold w =
     (Inr (peak_amplitude signal > threshold, peak_amplitude signal),
      w\<lparr>log_lines := log_lines w @ MaxAmplitude (peak_amplitude signal) #
          (if peak_amplitude signal > threshold then [AnomalyDetected] else [])\<rparr>)"
  by (simp add: detect_anomaly_def fft_dft peak_spectrum emit_def del: map_map)

lemma fair_draws_sdrop: "fair_draws chans rs \<Longrightarrow> fair_draws chans (sdrop m rs)"
  unfolding fair_draws_def
proof (intro allI)
  fix n c
  assume h: "\<forall>n c. \<exists>k. chans ! (rs !! (n + k) mod length chans) \<noteq> c"
  then obtain k where "chans ! (rs !! ((m + n) + k) mod length chans) \<noteq> c" by blast
  then show "\<exists>k. chans ! (sdrop m rs !! (n + k) mod length chans) \<noteq> c"
    by (auto simp: sdrop_snth add.assoc)
qed

lemma fair_draws_pick: "fair_draws chans rs \<Longrightarrow> \<exists>k. chans ! (rs !! k mod length chans) \<noteq> c"
  unfolding fair_draws_def by (metis add_0)

lemma random_choice_ok:
  "xs \<noteq> [] \<Longrightarrow> random_choice xs w =
     (Inr (xs ! (shd (random_draws w) mod length xs)), w\<lparr>random_draws := stl (random_draws w)\<rparr>)"
  by (simp add: random_choice_def)

lemma switch_channel_ok:
  assumes "\<exists>ch \<in> set (channels self). ch \<noteq> current_channel self"
  shows "\<exists>c. switch_channel self w =
            (Inr None, self\<lparr>current_channel := c\<rparr>,
             w\<lparr>random_draws := stl (random_draws w), log_lines := log_lines w @ [SwitchedTo c]\<rparr>)
          \<and> c \<in> set (channels self) \<and> c \<noteq> current_channel self"
proof -
  define av where "av = filter (\<lambda>ch. ch \<noteq> current_channel self) (channels self)"
  have ne: "av \<noteq> []" using assms by (auto simp: av_def filter_empty_conv)
  define c where "c = av ! (shd (random_draws w) mod length av)"
  have "c \<in> set av" unfolding c_def using ne by (intro nth_mem) simp
  then have "c \<in> set (channels self)" "c \<noteq> current_channel self" by (auto simp: av_def)
  moreover have "switch_channel self w =
            (Inr None, self\<lparr>current_channel := c\<rparr>,
             w\<lparr>random_draws := stl (random_draws w), log_lines := log_lines w @ [SwitchedTo c]\<rparr>)"
    using ne by (simp add: switch_channel_def Let_def av_def[symmetric] random_choice_ok c_def emit_def)
  ultimately show ?thesis by blast
qed

lemma hopping_loop_exit:
  "new_channel \<noteq> current_channel self \<Longrightarrow> hopping_loop self new_channel w = Some (Inr new_channel, w)"
  by (subst hopping_loop.simps) simp

lemma hopping_loop_returns:
  assumes "channels self \<noteq> []"
    and "channels self ! (random_draws w !! k mod length (channels self)) \<noteq> current_channel self"
  shows "\<exists>c n. hopping_loop self (current_channel self) w =
                 Some (Inr c, w\<lparr>random_draws := sdrop (Suc n) (random_draws w)\<rparr>)
               \<and> c \<in> set (channels self) \<and> c \<noteq> current_channel self"
  using assms(2)
proof (induction k arbitrary: w)
  case 0
  define c where "c = channels self ! (shd (random_draws w) mod length (channels self))"
  have "c \<noteq> current_channel self" using 0 by (simp add: c_def)
  moreover have "c \<in> set (channels self)" unfolding c_def using assms(1) by (intro nth_mem) simp
  moreover have "hopping_loop self (current_channel self) w
      = Some (Inr c, w\<lparr>random_draws := sdrop (Suc 0) (random_draws w)\<rparr>)"
    using assms(1) calculation(1)
    by (subst hopping_loop.simps) (simp add: random_choice_ok c_def[symmetric] hopping_loop_exit)
  ultimately show ?case by blast
next
  case (Suc k)
  define c where "c = channels self ! (shd (random_draws w) mod length (channels self))"
  define w1 where "w1 = w\<lparr>random_draws := stl (random_draws w)\<rparr>"
  have step: "hopping_loop self (current_channel self) w = hopping_loop self c w1"
    using assms(1)
    by (subst hopping_loop.simps) (simp add: random_choice_ok c_def[symmetric] w1_def)
  have cin: "c \<in> set (channels self)" unfolding c_def using assms(1) by (intro nth_mem) simp
  show ?case
  proof (cases "c = current_channel self")
    case False
    then have "hopping_loop self (current_channel self) w
      = Some (Inr c, w\<lparr>random_draws := sdrop (Suc 0) (random_draws w)\<rparr>)"
      by (simp add: step hopping_loop_exit w1_def)
    with False cin show ?thesis by blast
  next
    case True
    have "channels self ! (random_draws w1 !! k mod length (channels self)) \<noteq> current_channel self"
      using Suc.prems by (simp add: w1_def)
    from Suc.IH[OF this] obtain c' n where
      h: "hopping_loop self (current_channel self) w1 =
            Some (Inr c', w1\<lparr>random_draws := sdrop (Suc n) (random_draws w1)\<rparr>)"
         "c' \<in> set (channels self)" "c' \<noteq> current_channel self" by blast
    have "hopping_loop self (current_channel self) w =
            Some (Inr c', w\<lparr>random_draws := sdrop (Suc (Suc n)) (random_draws w)\<rparr>)"
      using h(1) True by (simp add: step w1_def)
    with h(2,3) show ?thesis by blast
  qed
qed

lemma frequency_hopping_returns:
  assumes "channels self \<noteq> []"
    and "\<exists>k. channels self ! (random_draws w !! k mod length (channels self)) \<noteq> current_channel self"
  shows "\<exists>c n. frequency_hopping self w =
                 Some (Inr None, self\<lparr>current_channel := c\<rparr>,
                       w\<lparr>random_draws := sdrop (Suc n) (random_draws w),
                         log_lines := log_lines w @ [HoppedTo c]\<rparr>)
               \<and> c \<in> set (channels self) \<and> c \<noteq> current_channel self"
proof -
  define c0 where "c0 = channels self ! (shd (random_draws w) mod length (channels self))"
  define w1 where "w1 = w\<lparr>random_draws := stl (random_draws w)\<rparr>"
  have first: "random_choice (channels self) w = (Inr c0, w1)"
    using assms(1) by (simp add: random_choice_ok c0_def w1_def)
  have cin: "c0 \<in> set (channels self)" unfolding c0_def using assms(1) by (intro nth_mem) simp
  show ?thesis
  proof (cases "c0 = current_channel self")
    case False
    then have "frequency_hopping self w =
                 Some (Inr None, self\<lparr>current_channel := c0\<rparr>,
                       w\<lparr>random_draws := sdrop (Suc 0) (random_draws w),
                         log_lines := log_lines w @ [HoppedTo c0]\<rparr>)"
      by (simp add: frequency_hopping_def first hopping_loop_exit w1_def emit_def)
    with False cin show ?thesis by blast
  next
    case True
    from assms(2) obtain k where
      k: "channels self ! (random_draws w !! k mod length (channels self)) \<noteq> current_channel self"
      by blast
    have "k \<noteq> 0" using k True by (cases k) (auto simp: c0_def)
    then obtain k' where "k = Suc k'" by (cases k) auto
    with k have "channels self ! (random_draws w1 !! k' mod length (channels self)) \<noteq> current_channel self"
      by (simp add: w1_def)
    from hopping_loop_returns[OF assms(1) this] obtain c n where
      h: "hopping_loop self (current_channel self) w1 =
            Some (Inr c, w1\<lparr>random_draws := sdrop (Suc n) (random_draws w1)\<rparr>)"
         "c \<in> set (channels self)" "c \<noteq> current_channel self" by blast
    have "frequency_hopping self w =
                 Some (Inr None, self\<lparr>current_channel := c\<rparr>,
                       w\<lparr>random_draws := sdrop (Suc (Suc n)) (random_draws w),
                         log_lines := log_lines w @ [HoppedTo c]\<rparr>)"
      using h(1) True by (simp add: frequency_hopping_def first w1_def emit_def)
    with h(2,3) show ?thesis by blast
  qed
qed

lemma message_codes: "message = [68,114,111,110,101,32,99,111,109,109,117,110,105,99,97,116,105,111,110,32,115,101,99,117,114,101,100,46]"
  by (simp add: message_def)

lemma encode_message: "encode message = Inr message"
  by (simp add: message_codes utf8_char_def)

lemma decode_message: "decode message = Inr message"
  by (simp add: message_codes push_def)

lemma detect_jamming_pattern_ok:
  "length signal = n_features_in clf \<Longrightarrow>
   detect_jamming_pattern clf signal w =
     (Inr (decision clf signal = 1),
      w\<lparr>log_lines := log_lines w @ (if decision clf signal = 1 then [JammingPattern] else [])\<rparr>)"
  by (simp add: detect_jamming_pattern_def predict_def emit_def)

lemma other_channel: "2 \<le> card (set xs) \<Longrightarrow> \<exists>ch \<in> set xs. ch \<noteq> (c::int)"
proof (rule ccontr)
  assume two: "2 \<le> card (set xs)" and "\<not> (\<exists>ch \<in> set xs. ch \<noteq> c)"
  then have "set xs \<subseteq> {c}" by auto
  then have "card (set xs) \<le> card {c}" by (intro card_mono) auto
  with two show False by simp
qed

lemma optional_switch:
  assumes "2 \<le> card (set (channels ch))"
  shows "\<exists>c w'. (if b then switch_channel ch w else (Inr None, ch, w)) =
            (Inr None, ch\<lparr>current_channel := (if b then c else current_channel ch)\<rparr>, w')
          \<and> log_lines w' = log_lines w @ (if b then [SwitchedTo c] else [])
          \<and> (\<exists>n. random_draws w' = sdrop n (random_draws w))
          \<and> c \<in> set (channels ch) \<and> c \<noteq> current_channel ch"
proof (cases b)
  case True
  from switch_channel_ok[OF other_channel[OF assms]] obtain c where
    h: "switch_channel ch w =
            (Inr None, ch\<lparr>current_channel := c\<rparr>,
             w\<lparr>random_draws := stl (random_draws w), log_lines := log_lines w @ [SwitchedTo c]\<rparr>)"
       "c \<in> set (channels ch)" "c \<noteq> current_channel ch" by blast
  define w' where "w' = w\<lparr>random_draws := stl (random_draws w), log_lines := log_lines w @ [SwitchedTo c]\<rparr>"
  have "\<exists>n. random_draws w' = sdrop n (random_draws w)"
    by (rule exI[of _ 1]) (simp add: w'_def)
  moreover have "log_lines w' = log_lines w @ (if b then [SwitchedTo c] else [])"
    using True by (simp add: w'_def)
  moreover have "(if b then switch_channel ch w else (Inr None, ch, w)) =
            (Inr None, ch\<lparr>current_channel := (if b then c else current_channel ch)\<rparr>, w')"
    using True h(1) by (simp add: w'_def)
  ultimately show ?thesis using h(2,3) by blast
next
  case False
  from other_channel[OF assms] obtain c where "c \<in> set (channels ch)" "c \<noteq> current_channel ch" by blast
  moreover have "\<exists>n. random_draws w = sdrop n (random_draws w)"
    by (rule exI[of _ 0]) simp
  moreover have "log_lines w = log_lines w @ (if b then [SwitchedTo c] else [])"
    using False by simp
  moreover have "(if b then switch_channel ch w else (Inr None, ch, w)) =
            (Inr None, ch\<lparr>current_channel := (if b then c else current_channel ch)\<rparr>, w)"
    using False by simp
  ultimately show ?thesis by blast
qed

lemma recovery_strategy_ok:
  assumes "\<exists>ch \<in> set (channels self). ch \<noteq> current_channel self"
  shows "\<exists>c. recovery_strategy self w =
            (Inr None, self\<lparr>current_channel := c\<rparr>,
             w\<lparr>random_draws := stl (random_draws w),
               log_lines := log_lines w @ [RecoveryAttempt, SwitchedTo c, RecoveryInitiated]\<rparr>)
          \<and> c \<in> set (channels self) \<and> c \<noteq> current_channel self"
proof -
  from switch_channel_ok[OF assms] obtain c where
    h: "switch_channel self (emit RecoveryAttempt w) =
            (Inr None, self\<lparr>current_channel := c\<rparr>,
             (emit RecoveryAttempt w)\<lparr>random_draws := stl (random_draws (emit RecoveryAttempt w)),
                log_lines := log_lines (emit RecoveryAttempt w) @ [SwitchedTo c]\<rparr>)"
       "c \<in> set (channels self)" "c \<noteq> current_channel self" by blast
  have "recovery_strategy self w =
            (Inr None, self\<lparr>current_channel := c\<rparr>,
             w\<lparr>random_draws := stl (random_draws w),
               log_lines := log_lines w @ [RecoveryAttempt, SwitchedTo c, RecoveryInitiated]\<rparr>)"
    by (simp add: recovery_strategy_def h(1)) (simp add: emit_def)
  with h(2,3) show ?thesis by blast
qed

lemma encrypt_message_fixed:
  "encrypt_message cipher message w = (Inr (encrypt cipher message), emit MessageEncrypted w)"
  by (simp add: encrypt_message_def encode_message)

lemma decrypt_message_outcome:
  "decrypt_message cipher (encrypt cipher message) w =
     (case securing_outcome cipher of
        Inl e \<Rightarrow> (Inl e, w)
      | Inr s \<Rightarrow> (Inr s, emit MessageDecrypted w))"
  by (simp add: decrypt_message_def securing_outcome_def split: sum.splits)

lemma securing_tail:
  "(case encrypt_message cipher message w of
      (Inl e, w7) \<Rightarrow> Some (Inl e, self', w7)
    | (Inr encrypted_message, w7) \<Rightarrow>
        (case decrypt_message cipher encrypted_message w7 of
           (Inl e, w8) \<Rightarrow> Some (Inl e, self', w8)
         | (Inr x, w8) \<Rightarrow> Some (Inr p, self', w8)))
   = Some (case securing_outcome cipher of Inl e \<Rightarrow> Inl e | Inr s \<Rightarrow> Inr p,
           self',
           w\<lparr>log_lines := log_lines w @ MessageEncrypted #
                (case securing_outcome cipher of Inl e \<Rightarrow> [] | Inr s \<Rightarrow> [MessageDecrypted])\<rparr>)"
  by (simp add: encrypt_message_fixed decrypt_message_outcome emit_def split: sum.splits)

lemma cycle:
  assumes sig: "signal \<noteq> []"
    and len: "length signal = n_features_in (detector self)"
    and two: "2 \<le> card (set (channels (channel self)))"
    and fair: "fair_draws (channels (channel self)) (random_draws w)"
  shows "\<exists>c1 c2 c3 c4 w'.
     monitor_and_respond self signal w =
       Some (case securing_outcome (encryption self) of
               Inl e \<Rightarrow> Inl e | Inr s \<Rightarrow> Inr (peak_amplitude signal),
             self\<lparr>channel := (channel self)\<lparr>current_channel := c4\<rparr>\<rparr>, w')
     \<and> log_lines w' = log_lines w @ MaxAmplitude (peak_amplitude signal) #
          (if 100 < peak_amplitude signal then [AnomalyDetected, SwitchedTo c1] else []) @
          (if decision (detector self) signal = 1 then [JammingPattern, SwitchedTo c2] else []) @
          [HoppedTo c3, RecoveryAttempt, SwitchedTo c4, RecoveryInitiated, MessageEncrypted] @
          (case securing_outcome (encryption self) of Inl e \<Rightarrow> [] | Inr s \<Rightarrow> [MessageDecrypted])
     \<and> (\<exists>n. random_draws w' = sdrop n (random_draws w))
     \<and> {c1, c2, c3, c4} \<subseteq> set (channels (channel self))
     \<and> c1 \<noteq> current_channel (channel self)
     \<and> c2 \<noteq> (if 100 < peak_amplitude signal then c1 else current_channel (channel self))
     \<and> c3 \<noteq> (if decision (detector self) signal = 1 then c2
               else if 100 < peak_amplitude signal then c1 else current_channel (channel self))
     \<and> c4 \<noteq> c3"
proof -
  define p where "p = peak_amplitude signal"
  define a where "a = (100 < p)"
  define j where "j = (decision (detector self) signal = 1)"
  define ch0 where "ch0 = channel self"
  define out where "out = securing_outcome (encryption self)"
  define w1 where "w1 = w\<lparr>log_lines := log_lines w @ MaxAmplitude p # (if a then [AnomalyDetected] else [])\<rparr>"
  have E1: "detect_anomaly signal 100 w = (Inr (a, p), w1)"
    using detect_anomaly_eq[OF sig, of 100 w] by (simp add: p_def a_def w1_def)
  have two0: "2 \<le> card (set (channels ch0))" using two by (simp add: ch0_def)
  from optional_switch[OF two0, of a w1] obtain c1 w2 where
    E2: "(if a then switch_channel ch0 w1 else (Inr None, ch0, w1)) =
            (Inr None, ch0\<lparr>current_channel := (if a then c1 else current_channel ch0)\<rparr>, w2)"
    and L2: "log_lines w2 = log_lines w1 @ (if a then [SwitchedTo c1] else [])"
    and R2: "\<exists>n. random_draws w2 = sdrop n (random_draws w1)"
    and C1: "c1 \<in> set (channels ch0)" "c1 \<noteq> current_channel ch0" by blast
  define ch2 where "ch2 = ch0\<lparr>current_channel := (if a then c1 else current_channel ch0)\<rparr>"
  define w3 where "w3 = w2\<lparr>log_lines := log_lines w2 @ (if j then [JammingPattern] else [])\<rparr>"
  have E3: "detect_jamming_pattern (detector self) signal w2 = (Inr j, w3)"
    using detect_jamming_pattern_ok[OF len, of w2] by (simp add: j_def w3_def)
  have two2: "2 \<le> card (set (channels ch2))" using two0 by (simp add: ch2_def)
  from optional_switch[OF two2, of j w3] obtain c2 w4 where
    E4: "(if j then switch_channel ch2 w3 else (Inr None, ch2, w3)) =
            (Inr None, ch2\<lparr>current_channel := (if j then c2 else current_channel ch2)\<rparr>, w4)"
    and L4: "log_lines w4 = log_lines w3 @ (if j then [SwitchedTo c2] else [])"
    and R4: "\<exists>n. random_draws w4 = sdrop n (random_draws w3)"
    and C2: "c2 \<in> set (channels ch2)" "c2 \<noteq> current_channel ch2" by blast
  define ch4 where "ch4 = ch2\<lparr>current_channel := (if j then c2 else current_channel ch2)\<rparr>"
  have chans4: "channels ch4 = channels ch0" by (simp add: ch4_def ch2_def)
  have ne4: "channels ch4 \<noteq> []" using two0 chans4 by auto
  from R2 obtain n2 where N2: "random_draws w2 = sdrop n2 (random_draws w)"
    by (auto simp: w1_def)
  from R4 obtain n3 where N3: "random_draws w4 = sdrop n3 (random_draws w2)"
    by (auto simp: w3_def)
  define n4 where "n4 = n3 + n2"
  have R4': "random_draws w4 = sdrop n4 (random_draws w)"
    by (simp add: n4_def N3 N2 add.commute)
  have "fair_draws (channels ch4) (random_draws w4)"
    using fair fair_draws_sdrop by (simp add: chans4 ch0_def R4')
  from frequency_hopping_returns[OF ne4 fair_draws_pick[OF this]] obtain c3 n5 where
    E5: "frequency_hopping ch4 w4 =
                 Some (Inr None, ch4\<lparr>current_channel := c3\<rparr>,
                       w4\<lparr>random_draws := sdrop (Suc n5) (random_draws w4),
                         log_lines := log_lines w4 @ [HoppedTo c3]\<rparr>)"
    and C3: "c3 \<in> set (channels ch4)" "c3 \<noteq> current_channel ch4" by blast
  define ch5 where "ch5 = ch4\<lparr>current_channel := c3\<rparr>"
  define w5 where "w5 = w4\<lparr>random_draws := sdrop (Suc n5) (random_draws w4),
                         log_lines := log_lines w4 @ [HoppedTo c3]\<rparr>"
  have "2 \<le> card (set (channels ch5))" using two0 by (simp add: ch5_def chans4)
  from recovery_strategy_ok[OF other_channel[OF this]] obtain c4 where
    E6: "recovery_strategy ch5 w5 =
            (Inr None, ch5\<lparr>current_channel := c4\<rparr>,
             w5\<lparr>random_draws := stl (random_draws w5),
               log_lines := log_lines w5 @ [RecoveryAttempt, SwitchedTo c4, RecoveryInitiated]\<rparr>)"
    and C4: "c4 \<in> set (channels ch5)" "c4 \<noteq> current_channel ch5" by blast
  define w6 where "w6 = w5\<lparr>random_draws := stl (random_draws w5),
               log_lines := log_lines w5 @ [RecoveryAttempt, SwitchedTo c4, RecoveryInitiated]\<rparr>"
  define w8 where "w8 = w6\<lparr>log_lines := log_lines w6 @ MessageEncrypted #
                (case out of Inl e \<Rightarrow> [] | Inr s \<Rightarrow> [MessageDecrypted])\<rparr>"
  have res: "monitor_and_respond self signal w =
       Some (case out of Inl e \<Rightarrow> Inl e | Inr s \<Rightarrow> Inr p,
             self\<lparr>channel := ch0\<lparr>current_channel := c4\<rparr>\<rparr>, w8)"
    unfolding monitor_and_respond_def
    by (simp only: E1 E2[unfolded ch0_def] E3 E4[unfolded ch2_def ch0_def]
          E5[unfolded ch4_def ch2_def ch0_def w5_def[symmetric]]
          E6[unfolded ch5_def ch4_def ch2_def ch0_def w6_def[symmetric]]
          securing_tail prod.case sum.case option.case)
       (simp add: ch0_def w8_def out_def)
  have log: "log_lines w8 = log_lines w @ MaxAmplitude p #
          (if a then [AnomalyDetected, SwitchedTo c1] else []) @
          (if j then [JammingPattern, SwitchedTo c2] else []) @
          [HoppedTo c3, RecoveryAttempt, SwitchedTo c4, RecoveryInitiated, MessageEncrypted] @
          (case out of Inl e \<Rightarrow> [] | Inr s \<Rightarrow> [MessageDecrypted])"
    by (simp add: w8_def w6_def w5_def L4 w3_def L2 w1_def)
  have rd: "\<exists>n. random_draws w8 = sdrop n (random_draws w)"
    by (rule exI[of _ "n4 + Suc n5 + 1"]) (simp add: w8_def w6_def w5_def R4' ac_simps)
  have mem: "{c1, c2, c3, c4} \<subseteq> set (channels (channel self))"
    using C1 C2 C3 C4 by (simp add: ch5_def chans4 ch2_def ch0_def)
  have neq: "c1 \<noteq> current_channel (channel self)"
      "c2 \<noteq> (if a then c1 else current_channel (channel self))"
      "c3 \<noteq> (if j then c2 else if a then c1 else current_channel (channel self))"
      "c4 \<noteq> c3"
    using C1 C2 C3 C4 by (auto simp: ch5_def ch4_def ch2_def ch0_def split: if_splits)
  show ?thesis
    using res log rd mem neq
    unfolding p_def[symmetric] a_def[symmetric] j_def[symmetric] ch0_def[symmetric] out_def[symmetric]
    by blast
qed

lemma length_linspace: "length (linspace start stop num) = num"
  by (simp add: linspace_def)

lemma linspace_unit_500:
  "linspace 0 1 500 = map (\<lambda>i. real i / 499) [0..<500]"
proof (rule nth_equalityI)
  show "length (linspace 0 1 500) = length (map (\<lambda>i. real i / 499) [0..<500])"
    by (simp add: length_linspace)
next
  fix i assume "i < length (linspace 0 1 500)"
  then have i: "i < 500" by (simp add: length_linspace)
  show "linspace 0 1 500 ! i = map (\<lambda>i. real i / 499) [0..<500] ! i"
  proof (cases "i = 499")
    case True
    then show ?thesis by (simp add: linspace_def)
  next
    case False
    with i show ?thesis by (simp add: linspace_def)
  qed
qed

lemma generate_signal_samples:
  "generate_signal standard_normal frequency noise_level =
     map (\<lambda>i. sin (2 * pi * frequency * (real i / 499)) + noise_level * standard_normal i) [0..<500]"
  unfolding generate_signal_def Let_def linspace_unit_500
  by (rule nth_equalityI) simp_all

lemma length_generate_signal: "length (generate_signal z f nl) = 500"
  by (simp add: generate_signal_samples)

subsection \<open>The concrete inputs\<close>

lemma counting_draws_nth: "counting_draws !! n = n"
  by (simp add: counting_draws_def)

lemma fair_counting_draws: "fair_draws [1, 2, 3, 4, 5] counting_draws"
  unfolding fair_draws_def
proof (intro allI)
  fix n :: nat and c :: int
  have "\<exists>k. (n + k) mod 5 = 0" by presburger
  then obtain k0 where k0: "(n + k0) mod 5 = 0" ..
  have "\<exists>k. (n + k) mod 5 = 1" by presburger
  then obtain k1 where k1: "(n + k1) mod 5 = 1" ..
  show "\<exists>k. [1, 2, 3, 4, 5] ! (counting_draws !! (n + k) mod length [1, 2, 3, 4, 5 :: int]) \<noteq> c"
  proof (cases "c = 1")
    case True
    then show ?thesis using k1 by (intro exI[of _ k1]) (simp add: counting_draws_nth)
  next
    case False
    then show ?thesis using k0 by (intro exI[of _ k0]) (simp add: counting_draws_nth)
  qed
qed

text \<open>The equations that run a cycle on a concrete input.\<close>

lemmas run_defs = monitor_and_respond_def small_controller_def five_channels_def
  constant_classifier_def plain_cipher_def quiet_world_def counting_draws_def
  detect_anomaly_def fft_def np_max_def emit_def detect_jamming_pattern_def predict_def
  switch_channel_def random_choice_def frequency_hopping_def hopping_loop.simps
  recovery_strategy_def encrypt_message_def decrypt_message_def encode_message decode_message
  lessThan_Suc

lemma small_inputs:
  "[0] \<noteq> ([] :: real list)"
  "length [0 :: real] = n_features_in (detector (small_controller c label cipher))"
  "2 \<le> card (set (channels (channel (small_controller c label cipher))))"
  "fair_draws (channels (channel (small_controller c label cipher))) (random_draws quiet_world)"
  using fair_counting_draws
  by (simp_all add: small_controller_def five_channels_def constant_classifier_def quiet_world_def)

lemma securing_outcome_plain: "securing_outcome plain_cipher = Inr message"
  by (simp add: securing_outcome_def plain_cipher_def decode_message)

lemma fromN3: "siterate Suc 3 = siterate Suc (Suc (Suc (Suc 0)))"
  by (simp add: numeral_3_eq_3)


lemma fromN2: "siterate Suc 2 = siterate Suc (Suc (Suc 0))"
  by (simp add: eval_nat_numeral)

subsection \<open>When the hopping loop does not end\<close>

text \<open>
  If every draw selects the current channel, the loop of \<open>frequency_hopping\<close> runs forever:
  the assumption on the draws in the statements below cannot be dropped.
\<close>

lemma hopping_loop_stuck:
  assumes "hopping_loop self new_channel w = Some y"
  shows "\<not> (new_channel = current_channel self \<and> channels self \<noteq> []
            \<and> (\<forall>k. channels self ! (random_draws w !! k mod length (channels self))
                      = current_channel self))"
proof (rule hopping_loop.raw_induct[where P = "\<lambda>self new_channel w y.
          \<not> (new_channel = current_channel self \<and> channels self \<noteq> []
            \<and> (\<forall>k. channels self ! (random_draws w !! k mod length (channels self))
                      = current_channel self))", OF _ assms])
  fix loop :: "communication_channel \<Rightarrow> int \<Rightarrow> world \<Rightarrow> ((error + int) \<times> world) option"
    and self new_channel w y
  assume IH: "\<And>self new_channel w y. loop self new_channel w = Some y \<Longrightarrow>
          \<not> (new_channel = current_channel self \<and> channels self \<noteq> []
            \<and> (\<forall>k. channels self ! (random_draws w !! k mod length (channels self))
                      = current_channel self))"
    and body: "(if new_channel = current_channel self then
        (case random_choice (channels self) w of
           (Inl e, w1) \<Rightarrow> Some (Inl e, w1)
         | (Inr c, w1) \<Rightarrow> loop self c w1)
      else Some (Inr new_channel, w)) = Some y"
  show "\<not> (new_channel = current_channel self \<and> channels self \<noteq> []
            \<and> (\<forall>k. channels self ! (random_draws w !! k mod length (channels self))
                      = current_channel self))"
  proof
    assume h: "new_channel = current_channel self \<and> channels self \<noteq> []
            \<and> (\<forall>k. channels self ! (random_draws w !! k mod length (channels self))
                      = current_channel self)"
    define w1 where "w1 = w\<lparr>random_draws := stl (random_draws w)\<rparr>"
    from h have all: "\<And>k. channels self ! (random_draws w !! k mod length (channels self))
                      = current_channel self" by blast
    have pick: "channels self ! (shd (random_draws w) mod length (channels self)) = current_channel self"
      using all[of 0] by simp
    have nxt: "\<forall>k. channels self ! (random_draws w1 !! k mod length (channels self)) = current_channel self"
    proof
      fix k
      show "channels self ! (random_draws w1 !! k mod length (channels self)) = current_channel self"
        using all[of "Suc k"] by (simp add: w1_def)
    qed
    from body h pick have "loop self (current_channel self) w1 = Some y"
      by (simp add: random_choice_ok w1_def)
    from IH[OF this] h nxt show False by simp
  qed
qed

lemma frequency_hopping_never_returns:
  assumes "channels self \<noteq> []"
    and "\<forall>k. channels self ! (random_draws w !! k mod length (channels self)) = current_channel self"
  shows "frequency_hopping self w = None"
proof -
  define w1 where "w1 = w\<lparr>random_draws := stl (random_draws w)\<rparr>"
  have pick: "channels self ! (shd (random_draws w) mod length (channels self)) = current_channel self"
    using assms(2)[rule_format, of 0] by simp
  have nxt: "\<forall>k. channels self ! (random_draws w1 !! k mod length (channels self)) = current_channel self"
  proof
    fix k
    show "channels self ! (random_draws w1 !! k mod length (channels self)) = current_channel self"
      using assms(2)[rule_format, of "Suc k"] by (simp add: w1_def)
  qed
  have "hopping_loop self (current_channel self) w1 = None"
  proof (cases "hopping_loop self (current_channel self) w1")
    case None then show ?thesis .
  next
    case (Some y)
    from hopping_loop_stuck[OF this] assms(1) nxt show ?thesis by simp
  qed
  then show ?thesis
    using assms(1) pick by (simp add: frequency_hopping_def random_choice_ok w1_def)
qed

subsection \<open>UTF-8: decoding what was encoded\<close>

lemma decode_two_bytes:
  assumes "2 \<le> a" "a < 32" "b < 64"
  shows "decode ([0xC0 + a, 0x80 + b] @ rest) = push (a * 64 + b) (decode rest)"
  using assms by (simp add: continuation_def)

lemma decode_three_bytes:
  assumes "a < 16" "b < 64" "c < 64" "0x800 \<le> a * 4096 + b * 64 + c"
    "\<not> (0xD800 \<le> a * 4096 + b * 64 + c \<and> a * 4096 + b * 64 + c < 0xE000)"
  shows "decode ([0xE0 + a, 0x80 + b, 0x80 + c] @ rest) = push (a * 4096 + b * 64 + c) (decode rest)"
  using assms by (simp add: continuation_def Let_def)

lemma decode_four_bytes:
  assumes "a < 5" "b < 64" "c < 64" "d < 64" "0x10000 \<le> a * 262144 + b * 4096 + c * 64 + d"
    "a * 262144 + b * 4096 + c * 64 + d < 0x110000"
  shows "decode ([0xF0 + a, 0x80 + b, 0x80 + c, 0x80 + d] @ rest)
           = push (a * 262144 + b * 4096 + c * 64 + d) (decode rest)"
  using assms by (simp add: continuation_def Let_def)

lemma digits3:
  fixes cp :: nat
  shows "cp div 4096 * 4096 + cp div 64 mod 64 * 64 + cp mod 64 = cp"
proof -
  define q where "q = cp div 64"
  define a where "a = q div 64"
  define b where "b = q mod 64"
  define c where "c = cp mod 64"
  have 1: "cp = q * 64 + c" by (simp add: q_def c_def)
  have 2: "q = a * 64 + b" by (simp add: a_def b_def)
  have 3: "cp div 4096 = a"
    using div_mult2_eq[of cp 64 64] by (simp add: a_def q_def)
  have "a * 4096 + b * 64 + c = (a * 64 + b) * 64 + c" by (simp add: algebra_simps)
  also have "\<dots> = cp" using 1 2 by simp
  finally show ?thesis by (simp add: 3 b_def[symmetric] q_def[symmetric] c_def[symmetric])
qed

lemma digits4:
  fixes cp :: nat
  shows "cp div 262144 * 262144 + cp div 4096 mod 64 * 4096 + cp div 64 mod 64 * 64 + cp mod 64 = cp"
proof -
  define r where "r = cp div 4096"
  define a where "a = r div 64"
  define b where "b = r mod 64"
  define t where "t = cp div 64 mod 64 * 64 + cp mod 64"
  have 1: "r * 4096 + t = cp" using digits3[of cp] by (simp add: r_def t_def)
  have 2: "r = a * 64 + b" by (simp add: a_def b_def)
  have 3: "cp div 262144 = a"
    using div_mult2_eq[of cp 4096 64] by (simp add: a_def r_def)
  have "a * 262144 + b * 4096 + t = (a * 64 + b) * 4096 + t" by (simp add: algebra_simps)
  also have "\<dots> = cp" using 1 2 by simp
  finally show ?thesis
    by (simp add: 3 b_def[symmetric] r_def[symmetric] t_def add.assoc)
qed

lemma decode_utf8_char:
  assumes "scalar_value cp"
  shows "\<exists>bs. utf8_char cp = Inr bs \<and> (\<forall>rest. decode (bs @ rest) = push cp (decode rest))"
proof -
  consider "cp < 0x80" | "0x80 \<le> cp \<and> cp < 0x800" | "0x800 \<le> cp \<and> cp < 0x10000"
    | "0x10000 \<le> cp \<and> cp < 0x110000"
    using assms unfolding scalar_value_def by linarith
  then show ?thesis
  proof cases
    case 1
    then show ?thesis by (simp add: utf8_char_def)
  next
    case 2
    have u: "utf8_char cp = Inr [0xC0 + cp div 64, 0x80 + cp mod 64]"
      using 2 by (simp add: utf8_char_def)
    have "128 div 64 \<le> cp div 64" using 2 by (intro div_le_mono) simp
    then have lo: "2 \<le> cp div 64" by simp
    have hi: "cp div 64 < 32" by (rule less_mult_imp_div_less) (use 2 in simp)
    have "decode ([0xC0 + cp div 64, 0x80 + cp mod 64] @ rest)
            = push (cp div 64 * 64 + cp mod 64) (decode rest)" for rest
      by (rule decode_two_bytes[OF lo hi]) simp
    then have "decode ([0xC0 + cp div 64, 0x80 + cp mod 64] @ rest) = push cp (decode rest)" for rest
      by (simp only: div_mult_mod_eq)
    with u show ?thesis by blast
  next
    case 3
    have ns: "\<not> (0xD800 \<le> cp \<and> cp < 0xE000)"
      using assms by (auto simp: scalar_value_def)
    have u: "utf8_char cp = Inr [0xE0 + cp div 4096, 0x80 + cp div 64 mod 64, 0x80 + cp mod 64]"
      using 3 ns by (simp add: utf8_char_def)
    have hi: "cp div 4096 < 16" by (rule less_mult_imp_div_less) (use 3 in simp)
    have "decode ([0xE0 + cp div 4096, 0x80 + cp div 64 mod 64, 0x80 + cp mod 64] @ rest)
            = push (cp div 4096 * 4096 + cp div 64 mod 64 * 64 + cp mod 64) (decode rest)" for rest
    proof (rule decode_three_bytes[OF hi])
      show "cp div 64 mod 64 < 64" "cp mod 64 < 64" by simp_all
      show "0x800 \<le> cp div 4096 * 4096 + cp div 64 mod 64 * 64 + cp mod 64"
        unfolding digits3 using 3 by simp
      show "\<not> (0xD800 \<le> cp div 4096 * 4096 + cp div 64 mod 64 * 64 + cp mod 64
                \<and> cp div 4096 * 4096 + cp div 64 mod 64 * 64 + cp mod 64 < 0xE000)"
        unfolding digits3 using ns .
    qed
    then have "decode ([0xE0 + cp div 4096, 0x80 + cp div 64 mod 64, 0x80 + cp mod 64] @ rest)
            = push cp (decode rest)" for rest
      by (simp only: digits3)
    with u show ?thesis by blast
  next
    case 4
    have u: "utf8_char cp = Inr [0xF0 + cp div 262144, 0x80 + cp div 4096 mod 64,
                                0x80 + cp div 64 mod 64, 0x80 + cp mod 64]"
      using 4 by (simp add: utf8_char_def)
    have hi: "cp div 262144 < 5" by (rule less_mult_imp_div_less) (use 4 in simp)
    have "decode ([0xF0 + cp div 262144, 0x80 + cp div 4096 mod 64,
                   0x80 + cp div 64 mod 64, 0x80 + cp mod 64] @ rest)
            = push (cp div 262144 * 262144 + cp div 4096 mod 64 * 4096
                    + cp div 64 mod 64 * 64 + cp mod 64) (decode rest)" for rest
    proof (rule decode_four_bytes[OF hi])
      show "cp div 4096 mod 64 < 64" "cp div 64 mod 64 < 64" "cp mod 64 < 64" by simp_all
      show "0x10000 \<le> cp div 262144 * 262144 + cp div 4096 mod 64 * 4096
                    + cp div 64 mod 64 * 64 + cp mod 64"
        unfolding digits4 using 4 by simp
      show "cp div 262144 * 262144 + cp div 4096 mod 64 * 4096
                    + cp div 64 mod 64 * 64 + cp mod 64 < 0x110000"
        unfolding digits4 using 4 by simp
    qed
    then have "decode ([0xF0 + cp div 262144, 0x80 + cp div 4096 mod 64,
                   0x80 + cp div 64 mod 64, 0x80 + cp mod 64] @ rest) = push cp (decode rest)" for rest
      by (simp only: digits4)
    with u show ?thesis by blast
  qed
qed

lemma decode_encode:
  "list_all scalar_value m \<Longrightarrow> \<exists>bs. encode m = Inr bs \<and> decode bs = Inr m"
proof (induction m)
  case Nil
  then show ?case by simp
next
  case (Cons cp m)
  then obtain rest where r: "encode m = Inr rest" "decode rest = Inr m" by auto
  from Cons.prems obtain bs where b: "utf8_char cp = Inr bs"
      "\<And>rest. decode (bs @ rest) = push cp (decode rest)"
    using decode_utf8_char[of cp] by auto
  show ?case by (simp add: r b push_def)
qed

subsection \<open>The ciphers\<close>

lemma keyed_cipher_law: "secure_channel_law (keyed_cipher key)"
  by (auto simp: secure_channel_law_def keyed_cipher_def image_iff split: list.splits)


lemma scalar_message: "list_all scalar_value message"
  by (simp add: message_codes scalar_value_def)

subsection \<open>The calls of a cycle\<close>

text \<open>
  The cycle as the chain of calls it makes, each applied to the state the one before left:
  the score, the first switch if the peak exceeds 100, the classification, the second switch
  if the label is 1, the hop, the recovery strategy with its switch, and the securing step.
\<close>

lemma cycle_calls:
  assumes sig: "signal \<noteq> []"
    and len: "length signal = n_features_in (detector self)"
    and two: "2 \<le> card (set (channels (channel self)))"
    and fair: "fair_draws (channels (channel self)) (random_draws w)"
  shows "\<exists>anomaly peak w1 ch2 w2 jamming w3 ch4 w4 c3 w5 c4 w6 before.
       detect_anomaly signal 100 w = (Inr (anomaly, peak), w1)
     \<and> (if anomaly then switch_channel (channel self) w1 else (Inr None, channel self, w1))
           = (Inr None, ch2, w2)
     \<and> detect_jamming_pattern (detector self) signal w2 = (Inr jamming, w3)
     \<and> (if jamming then switch_channel ch2 w3 else (Inr None, ch2, w3)) = (Inr None, ch4, w4)
     \<and> frequency_hopping ch4 w4 = Some (Inr None, ch4\<lparr>current_channel := c3\<rparr>, w5)
     \<and> c3 \<in> set (channels ch4) \<and> c3 \<noteq> current_channel ch4
     \<and> recovery_strategy (ch4\<lparr>current_channel := c3\<rparr>) w5
           = (Inr None, ch4\<lparr>current_channel := c4\<rparr>, w6)
     \<and> switch_channel (ch4\<lparr>current_channel := c3\<rparr>) (emit RecoveryAttempt w5)
           = (Inr None, ch4\<lparr>current_channel := c4\<rparr>,
              w6\<lparr>log_lines := log_lines w5 @ [RecoveryAttempt, SwitchedTo c4]\<rparr>)
     \<and> c4 \<in> set (channels ch4) \<and> c4 \<noteq> c3
     \<and> monitor_and_respond self signal w =
           Some (case securing_outcome (encryption self) of
                   Inl e \<Rightarrow> Inl e | Inr s \<Rightarrow> Inr peak,
                 self\<lparr>channel := ch4\<lparr>current_channel := c4\<rparr>\<rparr>,
                 w6\<lparr>log_lines := log_lines w6 @ MessageEncrypted #
                    (case securing_outcome (encryption self) of
                       Inl e \<Rightarrow> [] | Inr s \<Rightarrow> [MessageDecrypted])\<rparr>)
     \<and> channels ch4 = channels (channel self)
     \<and> log_lines w4 = log_lines w @ before
     \<and> filter is_hop before = []
     \<and> current_channel ch4 = last (channel_history (current_channel (channel self)) before)
     \<and> log_lines w5 = log_lines w4 @ [HoppedTo c3]
     \<and> log_lines w6 = log_lines w5 @ [RecoveryAttempt, SwitchedTo c4, RecoveryInitiated]"
proof -
  define p where "p = peak_amplitude signal"
  define a where "a = (100 < p)"
  define j where "j = (decision (detector self) signal = 1)"
  define ch0 where "ch0 = channel self"
  define out where "out = securing_outcome (encryption self)"
  define w1 where "w1 = w\<lparr>log_lines := log_lines w @ MaxAmplitude p # (if a then [AnomalyDetected] else [])\<rparr>"
  have E1: "detect_anomaly signal 100 w = (Inr (a, p), w1)"
    using detect_anomaly_eq[OF sig, of 100 w] by (simp add: p_def a_def w1_def)
  have two0: "2 \<le> card (set (channels ch0))" using two by (simp add: ch0_def)
  from optional_switch[OF two0, of a w1] obtain c1 w2 where
    E2: "(if a then switch_channel ch0 w1 else (Inr None, ch0, w1)) =
            (Inr None, ch0\<lparr>current_channel := (if a then c1 else current_channel ch0)\<rparr>, w2)"
    and L2: "log_lines w2 = log_lines w1 @ (if a then [SwitchedTo c1] else [])"
    and R2: "\<exists>n. random_draws w2 = sdrop n (random_draws w1)"
    and C1: "c1 \<in> set (channels ch0)" "c1 \<noteq> current_channel ch0" by blast
  define ch2 where "ch2 = ch0\<lparr>current_channel := (if a then c1 else current_channel ch0)\<rparr>"
  define w3 where "w3 = w2\<lparr>log_lines := log_lines w2 @ (if j then [JammingPattern] else [])\<rparr>"
  have E3: "detect_jamming_pattern (detector self) signal w2 = (Inr j, w3)"
    using detect_jamming_pattern_ok[OF len, of w2] by (simp add: j_def w3_def)
  have two2: "2 \<le> card (set (channels ch2))" using two0 by (simp add: ch2_def)
  from optional_switch[OF two2, of j w3] obtain c2 w4 where
    E4: "(if j then switch_channel ch2 w3 else (Inr None, ch2, w3)) =
            (Inr None, ch2\<lparr>current_channel := (if j then c2 else current_channel ch2)\<rparr>, w4)"
    and L4: "log_lines w4 = log_lines w3 @ (if j then [SwitchedTo c2] else [])"
    and R4: "\<exists>n. random_draws w4 = sdrop n (random_draws w3)"
    and C2: "c2 \<in> set (channels ch2)" "c2 \<noteq> current_channel ch2" by blast
  define ch4 where "ch4 = ch2\<lparr>current_channel := (if j then c2 else current_channel ch2)\<rparr>"
  have chans4: "channels ch4 = channels ch0" by (simp add: ch4_def ch2_def)
  have ne4: "channels ch4 \<noteq> []" using two0 chans4 by auto
  from R2 obtain n2 where N2: "random_draws w2 = sdrop n2 (random_draws w)"
    by (auto simp: w1_def)
  from R4 obtain n3 where N3: "random_draws w4 = sdrop n3 (random_draws w2)"
    by (auto simp: w3_def)
  define n4 where "n4 = n3 + n2"
  have R4': "random_draws w4 = sdrop n4 (random_draws w)"
    by (simp add: n4_def N3 N2 add.commute)
  have "fair_draws (channels ch4) (random_draws w4)"
    using fair fair_draws_sdrop by (simp add: chans4 ch0_def R4')
  from frequency_hopping_returns[OF ne4 fair_draws_pick[OF this]] obtain c3 n5 where
    E5: "frequency_hopping ch4 w4 =
                 Some (Inr None, ch4\<lparr>current_channel := c3\<rparr>,
                       w4\<lparr>random_draws := sdrop (Suc n5) (random_draws w4),
                         log_lines := log_lines w4 @ [HoppedTo c3]\<rparr>)"
    and C3: "c3 \<in> set (channels ch4)" "c3 \<noteq> current_channel ch4" by blast
  define ch5 where "ch5 = ch4\<lparr>current_channel := c3\<rparr>"
  define w5 where "w5 = w4\<lparr>random_draws := sdrop (Suc n5) (random_draws w4),
                         log_lines := log_lines w4 @ [HoppedTo c3]\<rparr>"
  have "2 \<le> card (set (channels ch5))" using two0 by (simp add: ch5_def chans4)
  from switch_channel_ok[OF other_channel[OF this], of "emit RecoveryAttempt w5"] obtain c4 where
    S6a: "switch_channel ch5 (emit RecoveryAttempt w5) =
            (Inr None, ch5\<lparr>current_channel := c4\<rparr>,
             (emit RecoveryAttempt w5)\<lparr>random_draws := stl (random_draws (emit RecoveryAttempt w5)),
                log_lines := log_lines (emit RecoveryAttempt w5) @ [SwitchedTo c4]\<rparr>)"
    and C4: "c4 \<in> set (channels ch5)" "c4 \<noteq> current_channel ch5" by blast
  have E6: "recovery_strategy ch5 w5 =
            (Inr None, ch5\<lparr>current_channel := c4\<rparr>,
             w5\<lparr>random_draws := stl (random_draws w5),
               log_lines := log_lines w5 @ [RecoveryAttempt, SwitchedTo c4, RecoveryInitiated]\<rparr>)"
    by (simp add: recovery_strategy_def S6a) (simp add: emit_def)
  define w6 where "w6 = w5\<lparr>random_draws := stl (random_draws w5),
               log_lines := log_lines w5 @ [RecoveryAttempt, SwitchedTo c4, RecoveryInitiated]\<rparr>"
  define w8 where "w8 = w6\<lparr>log_lines := log_lines w6 @ MessageEncrypted #
                (case out of Inl e \<Rightarrow> [] | Inr s \<Rightarrow> [MessageDecrypted])\<rparr>"
  have res: "monitor_and_respond self signal w =
       Some (case out of Inl e \<Rightarrow> Inl e | Inr s \<Rightarrow> Inr p,
             self\<lparr>channel := ch0\<lparr>current_channel := c4\<rparr>\<rparr>, w8)"
    unfolding monitor_and_respond_def
    by (simp only: E1 E2[unfolded ch0_def] E3 E4[unfolded ch2_def ch0_def]
          E5[unfolded ch4_def ch2_def ch0_def w5_def[symmetric]]
          E6[unfolded ch5_def ch4_def ch2_def ch0_def w6_def[symmetric]]
          securing_tail prod.case sum.case option.case)
       (simp add: ch0_def w8_def out_def)
  have log: "log_lines w8 = log_lines w @ MaxAmplitude p #
          (if a then [AnomalyDetected, SwitchedTo c1] else []) @
          (if j then [JammingPattern, SwitchedTo c2] else []) @
          [HoppedTo c3, RecoveryAttempt, SwitchedTo c4, RecoveryInitiated, MessageEncrypted] @
          (case out of Inl e \<Rightarrow> [] | Inr s \<Rightarrow> [MessageDecrypted])"
    by (simp add: w8_def w6_def w5_def L4 w3_def L2 w1_def)
  have rd: "\<exists>n. random_draws w8 = sdrop n (random_draws w)"
    by (rule exI[of _ "n4 + Suc n5 + 1"]) (simp add: w8_def w6_def w5_def R4' ac_simps)
  define before where "before = MaxAmplitude p #
          (if a then [AnomalyDetected, SwitchedTo c1] else []) @
          (if j then [JammingPattern, SwitchedTo c2] else [])"
  have B1: "log_lines w4 = log_lines w @ before"
    by (simp add: before_def L4 w3_def L2 w1_def)
  have B2: "filter is_hop before = []"
    by (simp add: before_def)
  have B3: "current_channel ch4 = last (channel_history (current_channel (channel self)) before)"
    by (simp add: before_def ch4_def ch2_def ch0_def)
  have E5': "frequency_hopping ch4 w4 = Some (Inr None, ch4\<lparr>current_channel := c3\<rparr>, w5)"
    using E5 by (simp add: w5_def)
  have E6': "recovery_strategy (ch4\<lparr>current_channel := c3\<rparr>) w5
           = (Inr None, ch4\<lparr>current_channel := c4\<rparr>, w6)"
    using E6 by (simp add: ch5_def w6_def)
  have S6: "switch_channel (ch4\<lparr>current_channel := c3\<rparr>) (emit RecoveryAttempt w5)
           = (Inr None, ch4\<lparr>current_channel := c4\<rparr>,
              w6\<lparr>log_lines := log_lines w5 @ [RecoveryAttempt, SwitchedTo c4]\<rparr>)"
    using S6a by (simp add: ch5_def w6_def emit_def)
  have C3': "c3 \<in> set (channels ch4)" "c3 \<noteq> current_channel ch4" using C3 .
  have C4': "c4 \<in> set (channels ch4)" "c4 \<noteq> c3" using C4 by (simp_all add: ch5_def)
  have res': "monitor_and_respond self signal w =
           Some (case out of Inl e \<Rightarrow> Inl e | Inr s \<Rightarrow> Inr p,
                 self\<lparr>channel := ch4\<lparr>current_channel := c4\<rparr>\<rparr>,
                 w6\<lparr>log_lines := log_lines w6 @ MessageEncrypted #
                    (case out of Inl e \<Rightarrow> [] | Inr s \<Rightarrow> [MessageDecrypted])\<rparr>)"
    using res by (simp add: w8_def ch4_def ch2_def)
  have L5: "log_lines w5 = log_lines w4 @ [HoppedTo c3]" by (simp add: w5_def)
  have L6: "log_lines w6 = log_lines w5 @ [RecoveryAttempt, SwitchedTo c4, RecoveryInitiated]"
    by (simp add: w6_def)
  have E2': "(if a then switch_channel (channel self) w1 else (Inr None, channel self, w1))
           = (Inr None, ch2, w2)"
    unfolding ch2_def ch0_def using E2[unfolded ch0_def] .
  have E4': "(if j then switch_channel ch2 w3 else (Inr None, ch2, w3)) = (Inr None, ch4, w4)"
    unfolding ch4_def using E4 .
  have chans: "channels ch4 = channels (channel self)" using chans4 by (simp add: ch0_def)
  show ?thesis
    unfolding out_def[symmetric]
    apply (rule exI[of _ a], rule exI[of _ p], rule exI[of _ w1], rule exI[of _ ch2])
    apply (rule exI[of _ w2], rule exI[of _ j], rule exI[of _ w3], rule exI[of _ ch4])
    apply (rule exI[of _ w4], rule exI[of _ c3], rule exI[of _ w5], rule exI[of _ c4])
    apply (rule exI[of _ w6], rule exI[of _ before])
    using E1 E2' E3 E4' E5' C3' E6' S6 C4' res' chans B1 B2 B3 L5 L6
    apply (intro conjI)
    apply assumption+
    done
qed

lemma channel_history_nonempty: "channel_history c es \<noteq> []"
  by (induction c es rule: channel_history.induct) auto

lemma channel_history_append:
  "channel_history c (es @ fs)
     = butlast (channel_history c es) @ channel_history (last (channel_history c es)) fs"
  by (induction c es rule: channel_history.induct) (simp_all add: channel_history_nonempty)

section \<open>The claims\<close>

subsection \<open>C1: the order of the operations in a cycle\<close>

text \<open>
  C1, as amended. Take a non-empty waveform of the length the classifier was fitted on, a
  channel list with at least two different channels, fair draws, and a cipher whose
  decryption of the encrypted message yields some text. Then \<open>monitor_and_respond\<close> returns
  the peak amplitude, and what it logs is exactly, in this order: the score (with the anomaly
  warning and a switch of channel when the peak exceeds 100), the classification (the
  jamming warning and a switch of channel when the label is 1), the hop, the recovery
  strategy (its announcement, one more switch of channel, its log line), the encryption and
  the decryption. So the first reactive switch comes before the classification, and the
  switch of the recovery strategy comes between the hop and the securing step.
\<close>

theorem monitoring_cycle_order:
  assumes "signal \<noteq> []"
    and "length signal = n_features_in (detector self)"
    and "2 \<le> card (set (channels (channel self)))"
    and "fair_draws (channels (channel self)) (random_draws w)"
    and "securing_outcome (encryption self) = Inr decrypted"
  shows "\<exists>c1 c2 c3 c4 self' w'.
     monitor_and_respond self signal w = Some (Inr (peak_amplitude signal), self', w')
     \<and> log_lines w' = log_lines w @ MaxAmplitude (peak_amplitude signal) #
          (if 100 < peak_amplitude signal then [AnomalyDetected, SwitchedTo c1] else []) @
          (if decision (detector self) signal = 1 then [JammingPattern, SwitchedTo c2] else []) @
          [HoppedTo c3, RecoveryAttempt, SwitchedTo c4, RecoveryInitiated,
           MessageEncrypted, MessageDecrypted]"
proof -
  from cycle[OF assms(1-4)] obtain c1 c2 c3 c4 w' where
    r: "monitor_and_respond self signal w =
       Some (case securing_outcome (encryption self) of
               Inl e \<Rightarrow> Inl e | Inr s \<Rightarrow> Inr (peak_amplitude signal),
             self\<lparr>channel := (channel self)\<lparr>current_channel := c4\<rparr>\<rparr>, w')"
    and l: "log_lines w' = log_lines w @ MaxAmplitude (peak_amplitude signal) #
          (if 100 < peak_amplitude signal then [AnomalyDetected, SwitchedTo c1] else []) @
          (if decision (detector self) signal = 1 then [JammingPattern, SwitchedTo c2] else []) @
          [HoppedTo c3, RecoveryAttempt, SwitchedTo c4, RecoveryInitiated, MessageEncrypted] @
          (case securing_outcome (encryption self) of Inl e \<Rightarrow> [] | Inr s \<Rightarrow> [MessageDecrypted])"
    by blast
  from r have "monitor_and_respond self signal w =
       Some (Inr (peak_amplitude signal),
             self\<lparr>channel := (channel self)\<lparr>current_channel := c4\<rparr>\<rparr>, w')"
    by (simp add: assms(5))
  moreover from l have "log_lines w' = log_lines w @ MaxAmplitude (peak_amplitude signal) #
          (if 100 < peak_amplitude signal then [AnomalyDetected, SwitchedTo c1] else []) @
          (if decision (detector self) signal = 1 then [JammingPattern, SwitchedTo c2] else []) @
          [HoppedTo c3, RecoveryAttempt, SwitchedTo c4, RecoveryInitiated,
           MessageEncrypted, MessageDecrypted]"
    by (simp add: assms(5))
  ultimately show ?thesis by blast
qed

theorem monitoring_cycle_order_witness:
  "[0] \<noteq> ([] :: real list)
   \<and> length [0 :: real] = n_features_in (detector (small_controller 1 0 plain_cipher))
   \<and> 2 \<le> card (set (channels (channel (small_controller 1 0 plain_cipher))))
   \<and> fair_draws (channels (channel (small_controller 1 0 plain_cipher))) (random_draws quiet_world)
   \<and> securing_outcome (encryption (small_controller 1 0 plain_cipher)) = Inr message
   \<and> (\<exists>c1 c2 c3 c4 self' w'.
        monitor_and_respond (small_controller 1 0 plain_cipher) [0] quiet_world
          = Some (Inr (peak_amplitude [0]), self', w')
        \<and> log_lines w' = log_lines quiet_world @ MaxAmplitude (peak_amplitude [0]) #
          (if 100 < peak_amplitude [0] then [AnomalyDetected, SwitchedTo c1] else []) @
          (if decision (detector (small_controller 1 0 plain_cipher)) [0] = 1
           then [JammingPattern, SwitchedTo c2] else []) @
          [HoppedTo c3, RecoveryAttempt, SwitchedTo c4, RecoveryInitiated,
           MessageEncrypted, MessageDecrypted])"
proof -
  have s: "securing_outcome (encryption (small_controller 1 0 plain_cipher)) = Inr message"
    by (simp add: small_controller_def securing_outcome_plain)
  from monitoring_cycle_order[OF small_inputs(1) small_inputs(2) small_inputs(3) small_inputs(4) s]
       small_inputs(1) small_inputs(2)[of 1 0 plain_cipher] small_inputs(3)[of 1 0 plain_cipher]
       small_inputs(4)[of 1 0 plain_cipher] s
  show ?thesis by blast
qed

text \<open>
  The claim as written puts the securing step right after the hop, with no change of channel
  in between. With current channel 1, draws 0, 1, 2, ... and no detector firing, the cycle
  hops to channel 2 and then switches to channel 4 before the message is encrypted.
\<close>

theorem switch_between_hop_and_securing_counterexample:
  "monitor_and_respond (small_controller 1 0 plain_cipher) [0] quiet_world =
     Some (Inr 0, small_controller 4 0 plain_cipher,
           \<lparr>random_draws = siterate Suc 3,
            log_lines = [MaxAmplitude 0, HoppedTo 2, RecoveryAttempt, SwitchedTo 4,
                         RecoveryInitiated, MessageEncrypted, MessageDecrypted]\<rparr>)"
  by (simp add: run_defs fromN3)

subsection \<open>C2: how often the channel is switched\<close>




subsection \<open>C3: one hop in every cycle\<close>

text \<open>
  C3. For a non-empty waveform of the length the classifier was fitted on, a channel list
  with at least two different channels and fair draws, whatever the two detectors answer and
  whether or not a reactive switch happened: the cycle returns, and it is the chain of the
  score, the conditional switches and the classification, followed by one call of
  \<open>frequency_hopping\<close> on the channel object these left. That call moves the current
  channel to a member of the list other than the channel it found, the recovery strategy
  runs on its result, and the controller returned holds the channel object that came out.
  The log of the cycle has exactly one "Frequency hopping" line, for the channel hopped to,
  which differs from the channel current just before the hop.
\<close>

theorem one_hop_per_cycle:
  assumes "signal \<noteq> []"
    and "length signal = n_features_in (detector self)"
    and "2 \<le> card (set (channels (channel self)))"
    and "fair_draws (channels (channel self)) (random_draws w)"
  shows "\<exists>anomaly peak w1 ch2 w2 jamming w3 ch4 w4 c w5 c' w6 result w' before after.
       detect_anomaly signal 100 w = (Inr (anomaly, peak), w1)
     \<and> (if anomaly then switch_channel (channel self) w1 else (Inr None, channel self, w1))
           = (Inr None, ch2, w2)
     \<and> detect_jamming_pattern (detector self) signal w2 = (Inr jamming, w3)
     \<and> (if jamming then switch_channel ch2 w3 else (Inr None, ch2, w3)) = (Inr None, ch4, w4)
     \<and> frequency_hopping ch4 w4 = Some (Inr None, ch4\<lparr>current_channel := c\<rparr>, w5)
     \<and> c \<in> set (channels ch4) \<and> c \<noteq> current_channel ch4
     \<and> recovery_strategy (ch4\<lparr>current_channel := c\<rparr>) w5
           = (Inr None, ch4\<lparr>current_channel := c'\<rparr>, w6)
     \<and> monitor_and_respond self signal w
           = Some (result, self\<lparr>channel := ch4\<lparr>current_channel := c'\<rparr>\<rparr>, w')
     \<and> random_draws w' = random_draws w6
     \<and> log_lines w4 = log_lines w @ before
     \<and> current_channel ch4 = last (channel_history (current_channel (channel self)) before)
     \<and> log_lines w' = log_lines w @ before @ HoppedTo c # after
     \<and> filter is_hop (before @ HoppedTo c # after) = [HoppedTo c]
     \<and> c \<noteq> last (channel_history (current_channel (channel self)) before)"
proof -
  from cycle_calls[OF assms] obtain anomaly peak w1 ch2 w2 jamming w3 ch4 w4 c3 w5 c4 w6 before where
    a: "detect_anomaly signal 100 w = (Inr (anomaly, peak), w1)"
    and b: "(if anomaly then switch_channel (channel self) w1 else (Inr None, channel self, w1))
           = (Inr None, ch2, w2)"
    and c: "detect_jamming_pattern (detector self) signal w2 = (Inr jamming, w3)"
    and d: "(if jamming then switch_channel ch2 w3 else (Inr None, ch2, w3)) = (Inr None, ch4, w4)"
    and e: "frequency_hopping ch4 w4 = Some (Inr None, ch4\<lparr>current_channel := c3\<rparr>, w5)"
    and f: "c3 \<in> set (channels ch4)" "c3 \<noteq> current_channel ch4"
    and g: "recovery_strategy (ch4\<lparr>current_channel := c3\<rparr>) w5
           = (Inr None, ch4\<lparr>current_channel := c4\<rparr>, w6)"
    and r: "monitor_and_respond self signal w =
           Some (case securing_outcome (encryption self) of
                   Inl e \<Rightarrow> Inl e | Inr s \<Rightarrow> Inr peak,
                 self\<lparr>channel := ch4\<lparr>current_channel := c4\<rparr>\<rparr>,
                 w6\<lparr>log_lines := log_lines w6 @ MessageEncrypted #
                    (case securing_outcome (encryption self) of
                       Inl e \<Rightarrow> [] | Inr s \<Rightarrow> [MessageDecrypted])\<rparr>)"
    and l4: "log_lines w4 = log_lines w @ before"
    and nh: "filter is_hop before = []"
    and cur: "current_channel ch4 = last (channel_history (current_channel (channel self)) before)"
    and l5: "log_lines w5 = log_lines w4 @ [HoppedTo c3]"
    and l6: "log_lines w6 = log_lines w5 @ [RecoveryAttempt, SwitchedTo c4, RecoveryInitiated]"
    by blast
  define result where "result = (case securing_outcome (encryption self) of
                   Inl e \<Rightarrow> Inl e | Inr s \<Rightarrow> Inr peak)"
  define after where "after = [RecoveryAttempt, SwitchedTo c4, RecoveryInitiated, MessageEncrypted] @
          (case securing_outcome (encryption self) of Inl e \<Rightarrow> [] | Inr s \<Rightarrow> [MessageDecrypted])"
  define w' where "w' = w6\<lparr>log_lines := log_lines w6 @ MessageEncrypted #
                    (case securing_outcome (encryption self) of
                       Inl e \<Rightarrow> [] | Inr s \<Rightarrow> [MessageDecrypted])\<rparr>"
  have r': "monitor_and_respond self signal w
           = Some (result, self\<lparr>channel := ch4\<lparr>current_channel := c4\<rparr>\<rparr>, w')"
    using r by (simp add: result_def w'_def)
  have rd: "random_draws w' = random_draws w6" by (simp add: w'_def)
  have lw: "log_lines w' = log_lines w @ before @ HoppedTo c3 # after"
    by (simp add: w'_def l6 l5 l4 after_def)
  have one: "filter is_hop (before @ HoppedTo c3 # after) = [HoppedTo c3]"
    using nh by (simp add: after_def split: sum.splits)
  have ne: "c3 \<noteq> last (channel_history (current_channel (channel self)) before)"
    using f(2) cur by simp
  show ?thesis
    apply (rule exI[of _ anomaly], rule exI[of _ peak], rule exI[of _ w1], rule exI[of _ ch2])
    apply (rule exI[of _ w2], rule exI[of _ jamming], rule exI[of _ w3], rule exI[of _ ch4])
    apply (rule exI[of _ w4], rule exI[of _ c3], rule exI[of _ w5], rule exI[of _ c4])
    apply (rule exI[of _ w6], rule exI[of _ result], rule exI[of _ w'], rule exI[of _ before])
    apply (rule exI[of _ after])
    using a b c d e f g r' rd l4 cur lw one ne
    apply (intro conjI)
    apply assumption+
    done
qed

theorem one_hop_per_cycle_witness:
  "[0] \<noteq> ([] :: real list)
   \<and> length [0 :: real] = n_features_in (detector (small_controller 2 0 plain_cipher))
   \<and> 2 \<le> card (set (channels (channel (small_controller 2 0 plain_cipher))))
   \<and> fair_draws (channels (channel (small_controller 2 0 plain_cipher))) (random_draws quiet_world)
   \<and> (\<exists>anomaly peak w1 ch2 w2 jamming w3 ch4 w4 c w5 c' w6 result w' before after.
       detect_anomaly [0] 100 quiet_world = (Inr (anomaly, peak), w1)
     \<and> (if anomaly then switch_channel (channel (small_controller 2 0 plain_cipher)) w1
          else (Inr None, channel (small_controller 2 0 plain_cipher), w1))
           = (Inr None, ch2, w2)
     \<and> detect_jamming_pattern (detector (small_controller 2 0 plain_cipher)) [0] w2 = (Inr jamming, w3)
     \<and> (if jamming then switch_channel ch2 w3 else (Inr None, ch2, w3)) = (Inr None, ch4, w4)
     \<and> frequency_hopping ch4 w4 = Some (Inr None, ch4\<lparr>current_channel := c\<rparr>, w5)
     \<and> c \<in> set (channels ch4) \<and> c \<noteq> current_channel ch4
     \<and> recovery_strategy (ch4\<lparr>current_channel := c\<rparr>) w5
           = (Inr None, ch4\<lparr>current_channel := c'\<rparr>, w6)
     \<and> monitor_and_respond (small_controller 2 0 plain_cipher) [0] quiet_world
           = Some (result, (small_controller 2 0 plain_cipher)\<lparr>channel := ch4\<lparr>current_channel := c'\<rparr>\<rparr>, w')
     \<and> random_draws w' = random_draws w6
     \<and> log_lines w4 = log_lines quiet_world @ before
     \<and> current_channel ch4
          = last (channel_history (current_channel (channel (small_controller 2 0 plain_cipher))) before)
     \<and> log_lines w' = log_lines quiet_world @ before @ HoppedTo c # after
     \<and> filter is_hop (before @ HoppedTo c # after) = [HoppedTo c]
     \<and> c \<noteq> last (channel_history (current_channel (channel (small_controller 2 0 plain_cipher))) before))"
proof -
  note h = small_inputs(1) small_inputs(2)[of 2 0 plain_cipher] small_inputs(3)[of 2 0 plain_cipher]
           small_inputs(4)[of 2 0 plain_cipher]
  from one_hop_per_cycle[OF h] h show ?thesis by (intro conjI)
qed

subsection \<open>C4: the securing step\<close>



subsection \<open>C5: the generated waveform\<close>

text \<open>
  C5, as amended. For every frequency and noise level, \<open>generate_signal\<close> returns exactly
  500 samples; sample \<open>i\<close> is \<open>sin (2\<pi> \<cdot> frequency \<cdot> t\<^sub>i)\<close> plus \<open>noise_level\<close> times the
  \<open>i\<close>-th standard normal variate, where the time points \<open>t\<^sub>i = i / 499\<close> are 500 evenly
  spaced points of the closed interval \<open>[0, 1]\<close>: both \<open>t = 0\<close> and \<open>t = 1\<close> are sampled.
\<close>

theorem generate_signal_closed_interval:
  "generate_signal standard_normal frequency noise_level =
     map (\<lambda>i. sin (2 * pi * frequency * (real i / 499)) + noise_level * standard_normal i) [0..<500]
   \<and> length (generate_signal standard_normal frequency noise_level) = 500
   \<and> linspace 0 1 500 ! 0 = 0 \<and> linspace 0 1 500 ! 499 = 1"
  by (simp add: generate_signal_samples linspace_unit_500)

text \<open>
  The claim as written has the endpoint excluded. The last time point of the source is
  \<open>1\<close>: at frequency \<open>1/2\<close> without noise the last sample is \<open>sin \<pi> = 0\<close>, where sampling
  the half-open interval gives \<open>sin (499\<pi>/500) > 0\<close>.
\<close>

theorem generate_signal_endpoint_counterexample:
  "linspace 0 1 500 ! 499 = 1
   \<and> generate_signal (\<lambda>i. 0) (1 / 2) 0 ! 499 = 0
   \<and> 0 < generate_half_open (\<lambda>i. 0) (1 / 2) 0 ! 499"
proof -
  have "0 < sin (pi * (499 / 500))"
    by (rule sin_gt_zero) (simp_all add: field_simps)
  then show ?thesis
    by (simp add: generate_signal_samples linspace_unit_500 generate_half_open_def half_open_points_def)
qed

subsection \<open>C6: the anomaly score\<close>

text \<open>
  C6. For every non-empty waveform and every threshold, \<open>detect_anomaly\<close> returns the pair
  of the verdict and the peak amplitude, where the peak amplitude is the largest magnitude
  of the waveform's discrete Fourier transform, is not negative, and the verdict is true
  exactly when the peak amplitude exceeds the threshold. The pair depends on the waveform
  and the threshold only (not on the ambient state), the peak is returned with either
  verdict, and no random draw is consumed.
\<close>

theorem detect_anomaly_verdict:
  assumes "signal \<noteq> []"
  shows "fst (detect_anomaly signal threshold w)
           = Inr (threshold < peak_amplitude signal, peak_amplitude signal)
       \<and> 0 \<le> peak_amplitude signal
       \<and> random_draws (snd (detect_anomaly signal threshold w)) = random_draws w"
  using assms by (simp add: detect_anomaly_eq peak_nonneg)

theorem detect_anomaly_verdict_witness:
  "[101] \<noteq> ([] :: real list)
   \<and> fst (detect_anomaly [101] 100 quiet_world) = Inr (True, 101)
   \<and> fst (detect_anomaly [99] 100 quiet_world) = Inr (False, 99)"
proof -
  have p: "peak_amplitude [101] = 101" "peak_amplitude [99] = 99"
    by (simp_all add: peak_amplitude_def dft_def lessThan_Suc)
  show ?thesis
    using detect_anomaly_verdict[of "[101]" 100 quiet_world]
          detect_anomaly_verdict[of "[99]" 100 quiet_world]
    by (simp add: p)
qed

subsection \<open>C7: switching and hopping leave the current channel\<close>

text \<open>
  C7, as amended. For every channel list with at least two different channels and every
  current channel, \<open>switch_channel\<close> sets the current channel to a member of the list other
  than the one before the call, and so does \<open>frequency_hopping\<close> as soon as some draw selects
  a channel other than the current one (it draws until then). Both return \<open>None\<close>: the
  channel selected is stored in \<open>current_channel\<close> and logged, not returned.
\<close>

theorem channel_change_away:
  assumes "2 \<le> card (set (channels self))"
    and "\<exists>k. channels self ! (random_draws w !! k mod length (channels self)) \<noteq> current_channel self"
  shows "(\<exists>c w'. switch_channel self w = (Inr None, self\<lparr>current_channel := c\<rparr>, w')
                 \<and> c \<in> set (channels self) \<and> c \<noteq> current_channel self)
       \<and> (\<exists>c w'. frequency_hopping self w = Some (Inr None, self\<lparr>current_channel := c\<rparr>, w')
                 \<and> c \<in> set (channels self) \<and> c \<noteq> current_channel self)"
proof
  from switch_channel_ok[OF other_channel[OF assms(1)]]
  show "\<exists>c w'. switch_channel self w = (Inr None, self\<lparr>current_channel := c\<rparr>, w')
                 \<and> c \<in> set (channels self) \<and> c \<noteq> current_channel self"
    by blast
next
  have "channels self \<noteq> []" using assms(1) by auto
  from frequency_hopping_returns[OF this assms(2)]
  show "\<exists>c w'. frequency_hopping self w = Some (Inr None, self\<lparr>current_channel := c\<rparr>, w')
                 \<and> c \<in> set (channels self) \<and> c \<noteq> current_channel self"
    by blast
qed

theorem channel_change_away_witness:
  "2 \<le> card (set (channels (five_channels 1)))
   \<and> (\<exists>k. channels (five_channels 1) ! (random_draws quiet_world !! k mod length (channels (five_channels 1)))
           \<noteq> current_channel (five_channels 1))
   \<and> (\<exists>c w'. switch_channel (five_channels 1) quiet_world
                 = (Inr None, (five_channels 1)\<lparr>current_channel := c\<rparr>, w')
               \<and> c \<in> set (channels (five_channels 1)) \<and> c \<noteq> current_channel (five_channels 1))
   \<and> (\<exists>c w'. frequency_hopping (five_channels 1) quiet_world
                 = Some (Inr None, (five_channels 1)\<lparr>current_channel := c\<rparr>, w')
               \<and> c \<in> set (channels (five_channels 1)) \<and> c \<noteq> current_channel (five_channels 1))"
proof -
  have h1: "2 \<le> card (set (channels (five_channels 1)))"
    by (simp add: five_channels_def)
  have h2: "\<exists>k. channels (five_channels 1) ! (random_draws quiet_world !! k mod length (channels (five_channels 1)))
           \<noteq> current_channel (five_channels 1)"
    by (rule exI[of _ 1]) (simp add: five_channels_def quiet_world_def counting_draws_def)
  from channel_change_away[OF h1 h2] h1 h2 show ?thesis by blast
qed

text \<open>
  The claim as written has both methods return the channel selected. From channel 1 with
  draws 0, 1, 2, ... each of them moves to channel 2 and returns \<open>None\<close>.
\<close>

theorem channel_methods_return_none_counterexample:
  "switch_channel (five_channels 1) quiet_world =
     (Inr None, five_channels 2, \<lparr>random_draws = siterate Suc 1, log_lines = [SwitchedTo 2]\<rparr>)
   \<and> frequency_hopping (five_channels 1) quiet_world =
     Some (Inr None, five_channels 2, \<lparr>random_draws = siterate Suc 2, log_lines = [HoppedTo 2]\<rparr>)"
  by (simp add: run_defs fromN2)

subsection \<open>C8: the round trip of a message\<close>

text \<open>
  C8. For every message (a string of Unicode scalar values) and every cipher that obeys the
  law of the secure channel: \<open>encrypt_message\<close> returns a token, and \<open>decrypt_message\<close> with
  the same cipher returns the message from it. On a byte string the cipher's \<open>encrypt\<close> did
  not produce (a tampered token), and on that token with the cipher of another key,
  \<open>decrypt_message\<close> raises \<open>InvalidToken\<close>: it returns no value and logs nothing.
\<close>

theorem secure_channel_round_trip:
  assumes "list_all scalar_value m"
    and "secure_channel_law cipher"
  shows "\<exists>token.
      encrypt_message cipher m w = (Inr token, emit MessageEncrypted w)
    \<and> (\<forall>w'. decrypt_message cipher token w' = (Inr m, emit MessageDecrypted w'))
    \<and> (\<forall>bad w'. bad \<notin> range (encrypt cipher) \<longrightarrow>
           decrypt_message cipher bad w' = (Inl InvalidToken, w'))
    \<and> (\<forall>other w'. secure_channel_law other \<longrightarrow> token \<notin> range (encrypt other) \<longrightarrow>
           decrypt_message other token w' = (Inl InvalidToken, w'))"
proof -
  from decode_encode[OF assms(1)] obtain plain where
    p: "encode m = Inr plain" "decode plain = Inr m" by blast
  have rt: "decrypt cipher (encrypt cipher plain) = Inr plain"
    using assms(2) by (simp add: secure_channel_law_def)
  have 1: "encrypt_message cipher m w = (Inr (encrypt cipher plain), emit MessageEncrypted w)"
    by (simp add: encrypt_message_def p(1))
  have 2: "\<forall>w'. decrypt_message cipher (encrypt cipher plain) w' = (Inr m, emit MessageDecrypted w')"
    by (simp add: decrypt_message_def rt p(2))
  have 3: "\<forall>bad w'. bad \<notin> range (encrypt cipher) \<longrightarrow>
           decrypt_message cipher bad w' = (Inl InvalidToken, w')"
    using assms(2) by (simp add: secure_channel_law_def decrypt_message_def)
  have 4: "\<forall>other w'. secure_channel_law other \<longrightarrow> encrypt cipher plain \<notin> range (encrypt other) \<longrightarrow>
           decrypt_message other (encrypt cipher plain) w' = (Inl InvalidToken, w')"
    by (simp add: secure_channel_law_def decrypt_message_def)
  from 1 2 3 4 show ?thesis by blast
qed

theorem secure_channel_round_trip_witness:
  "list_all scalar_value message
   \<and> secure_channel_law (keyed_cipher 7)
   \<and> encrypt_message (keyed_cipher 7) message quiet_world
        = (Inr (7 # message), emit MessageEncrypted quiet_world)
   \<and> decrypt_message (keyed_cipher 7) (7 # message) quiet_world
        = (Inr message, emit MessageDecrypted quiet_world)
   \<and> decrypt_message (keyed_cipher 7) (8 # message) quiet_world = (Inl InvalidToken, quiet_world)
   \<and> decrypt_message (keyed_cipher 9) (7 # message) quiet_world = (Inl InvalidToken, quiet_world)"
proof -
  from secure_channel_round_trip[OF scalar_message keyed_cipher_law, of 7 quiet_world]
  obtain token where
    t: "encrypt_message (keyed_cipher 7) message quiet_world = (Inr token, emit MessageEncrypted quiet_world)"
    and d: "\<forall>w'. decrypt_message (keyed_cipher 7) token w' = (Inr message, emit MessageDecrypted w')"
    and b: "\<forall>bad w'. bad \<notin> range (encrypt (keyed_cipher 7)) \<longrightarrow>
           decrypt_message (keyed_cipher 7) bad w' = (Inl InvalidToken, w')"
    and o: "\<forall>other w'. secure_channel_law other \<longrightarrow> token \<notin> range (encrypt other) \<longrightarrow>
           decrypt_message other token w' = (Inl InvalidToken, w')"
    by blast
  have tok: "token = 7 # message"
    using t by (simp add: encrypt_message_def encode_message keyed_cipher_def)
  have bad: "8 # message \<notin> range (encrypt (keyed_cipher 7))"
    by (auto simp: keyed_cipher_def)
  have foreign: "7 # message \<notin> range (encrypt (keyed_cipher 9))"
    by (auto simp: keyed_cipher_def)
  from t d b[rule_format, OF bad] o[rule_format, OF keyed_cipher_law, of 9] foreign
       scalar_message keyed_cipher_law[of 7]
  show ?thesis by (simp add: tok)
qed

subsection \<open>C9: a waveform of the wrong length\<close>

text \<open>
  C9. For every waveform whose number of samples differs from the number of features the
  classifier was fitted on, \<open>detect_jamming_pattern\<close> ends with the feature-count
  ValueError of \<open>predict\<close> (the specification's DimensionMismatch): it returns no boolean
  verdict, and logs nothing.
\<close>

theorem detect_jamming_pattern_dimension_mismatch:
  assumes "length signal \<noteq> n_features_in clf"
  shows "detect_jamming_pattern clf signal w = (Inl ValueError_n_features, w)"
  using assms by (simp add: detect_jamming_pattern_def predict_def)

theorem detect_jamming_pattern_dimension_mismatch_witness:
  "length [0, 0 :: real] \<noteq> n_features_in (constant_classifier 1 1)
   \<and> detect_jamming_pattern (constant_classifier 1 1) [0, 0] quiet_world
       = (Inl ValueError_n_features, quiet_world)"
  using detect_jamming_pattern_dimension_mismatch[of "[0, 0]" "constant_classifier 1 1" quiet_world]
  by (simp add: constant_classifier_def)

subsection \<open>C10: two changes of channel in every cycle\<close>

text \<open>
  C10. For a non-empty waveform of the length the classifier was fitted on, a channel list
  with at least two different channels and fair draws, also when no detector fires: the
  cycle returns, and it is the chain of the detection steps, the call of
  \<open>frequency_hopping\<close>, which moves the current channel away from the one it found, and the
  call of \<open>recovery_strategy\<close>, whose \<open>switch_channel\<close> moves it away from the channel hopped
  to. The controller returned holds the channel switched to last. The channels passed
  through in the cycle, as logged, end with these two changes.
\<close>

theorem two_channel_changes_per_cycle:
  assumes "signal \<noteq> []"
    and "length signal = n_features_in (detector self)"
    and "2 \<le> card (set (channels (channel self)))"
    and "fair_draws (channels (channel self)) (random_draws w)"
  shows "\<exists>anomaly peak w1 ch2 w2 jamming w3 ch4 w4 c3 w5 c4 w6 result self' w' before after.
       detect_anomaly signal 100 w = (Inr (anomaly, peak), w1)
     \<and> (if anomaly then switch_channel (channel self) w1 else (Inr None, channel self, w1))
           = (Inr None, ch2, w2)
     \<and> detect_jamming_pattern (detector self) signal w2 = (Inr jamming, w3)
     \<and> (if jamming then switch_channel ch2 w3 else (Inr None, ch2, w3)) = (Inr None, ch4, w4)
     \<and> frequency_hopping ch4 w4 = Some (Inr None, ch4\<lparr>current_channel := c3\<rparr>, w5)
     \<and> c3 \<noteq> current_channel ch4
     \<and> recovery_strategy (ch4\<lparr>current_channel := c3\<rparr>) w5
           = (Inr None, ch4\<lparr>current_channel := c4\<rparr>, w6)
     \<and> switch_channel (ch4\<lparr>current_channel := c3\<rparr>) (emit RecoveryAttempt w5)
           = (Inr None, ch4\<lparr>current_channel := c4\<rparr>,
              w6\<lparr>log_lines := log_lines w5 @ [RecoveryAttempt, SwitchedTo c4]\<rparr>)
     \<and> self' = self\<lparr>channel := ch4\<lparr>current_channel := c4\<rparr>\<rparr>
     \<and> random_draws w' = random_draws w6
     \<and> log_lines w4 = log_lines w @ before
     \<and> current_channel ch4 = last (channel_history (current_channel (channel self)) before)
     \<and> monitor_and_respond self signal w = Some (result, self', w')
     \<and> log_lines w' = log_lines w @ before @
           [HoppedTo c3, RecoveryAttempt, SwitchedTo c4, RecoveryInitiated] @ after
     \<and> c3 \<noteq> last (channel_history (current_channel (channel self)) before)
     \<and> c4 \<noteq> c3
     \<and> current_channel (channel self') = c4
     \<and> channel_history (current_channel (channel self))
          (before @ [HoppedTo c3, RecoveryAttempt, SwitchedTo c4, RecoveryInitiated] @ after)
        = channel_history (current_channel (channel self)) before @ [c3, c4]"
proof -
  from cycle_calls[OF assms] obtain anomaly peak w1 ch2 w2 jamming w3 ch4 w4 c3 w5 c4 w6 before where
    a: "detect_anomaly signal 100 w = (Inr (anomaly, peak), w1)"
    and b: "(if anomaly then switch_channel (channel self) w1 else (Inr None, channel self, w1))
           = (Inr None, ch2, w2)"
    and c: "detect_jamming_pattern (detector self) signal w2 = (Inr jamming, w3)"
    and d: "(if jamming then switch_channel ch2 w3 else (Inr None, ch2, w3)) = (Inr None, ch4, w4)"
    and e: "frequency_hopping ch4 w4 = Some (Inr None, ch4\<lparr>current_channel := c3\<rparr>, w5)"
    and f: "c3 \<noteq> current_channel ch4"
    and g: "recovery_strategy (ch4\<lparr>current_channel := c3\<rparr>) w5
           = (Inr None, ch4\<lparr>current_channel := c4\<rparr>, w6)"
    and s: "switch_channel (ch4\<lparr>current_channel := c3\<rparr>) (emit RecoveryAttempt w5)
           = (Inr None, ch4\<lparr>current_channel := c4\<rparr>,
              w6\<lparr>log_lines := log_lines w5 @ [RecoveryAttempt, SwitchedTo c4]\<rparr>)"
    and n: "c4 \<noteq> c3"
    and r: "monitor_and_respond self signal w =
           Some (case securing_outcome (encryption self) of
                   Inl e \<Rightarrow> Inl e | Inr s \<Rightarrow> Inr peak,
                 self\<lparr>channel := ch4\<lparr>current_channel := c4\<rparr>\<rparr>,
                 w6\<lparr>log_lines := log_lines w6 @ MessageEncrypted #
                    (case securing_outcome (encryption self) of
                       Inl e \<Rightarrow> [] | Inr s \<Rightarrow> [MessageDecrypted])\<rparr>)"
    and l4: "log_lines w4 = log_lines w @ before"
    and cur: "current_channel ch4 = last (channel_history (current_channel (channel self)) before)"
    and l5: "log_lines w5 = log_lines w4 @ [HoppedTo c3]"
    and l6: "log_lines w6 = log_lines w5 @ [RecoveryAttempt, SwitchedTo c4, RecoveryInitiated]"
    by blast
  define result where "result = (case securing_outcome (encryption self) of
                   Inl e \<Rightarrow> Inl e | Inr s \<Rightarrow> Inr peak)"
  define after where "after = MessageEncrypted #
          (case securing_outcome (encryption self) of Inl e \<Rightarrow> [] | Inr s \<Rightarrow> [MessageDecrypted])"
  define w' where "w' = w6\<lparr>log_lines := log_lines w6 @ after\<rparr>"
  define self' where "self' = self\<lparr>channel := ch4\<lparr>current_channel := c4\<rparr>\<rparr>"
  have r': "monitor_and_respond self signal w = Some (result, self', w')"
    using r by (simp add: result_def w'_def self'_def after_def)
  have rd: "random_draws w' = random_draws w6" by (simp add: w'_def)
  have lw: "log_lines w' = log_lines w @ before @
           [HoppedTo c3, RecoveryAttempt, SwitchedTo c4, RecoveryInitiated] @ after"
    by (simp add: w'_def l6 l5 l4)
  have ne: "c3 \<noteq> last (channel_history (current_channel (channel self)) before)"
    using f cur by simp
  have fin: "current_channel (channel self') = c4" by (simp add: self'_def)
  have hist: "channel_history (current_channel (channel self))
          (before @ [HoppedTo c3, RecoveryAttempt, SwitchedTo c4, RecoveryInitiated] @ after)
        = channel_history (current_channel (channel self)) before @ [c3, c4]"
  proof -
    have "channel_history y ([HoppedTo c3, RecoveryAttempt, SwitchedTo c4, RecoveryInitiated] @ after)
            = [y, c3, c4]" for y
      by (simp add: after_def split: sum.splits)
    then show ?thesis
      using channel_history_nonempty[of "current_channel (channel self)" before]
      by (simp add: channel_history_append[of _ before])
  qed
  have refl': "self' = self\<lparr>channel := ch4\<lparr>current_channel := c4\<rparr>\<rparr>" by (simp add: self'_def)
  show ?thesis
    apply (rule exI[of _ anomaly], rule exI[of _ peak], rule exI[of _ w1], rule exI[of _ ch2])
    apply (rule exI[of _ w2], rule exI[of _ jamming], rule exI[of _ w3], rule exI[of _ ch4])
    apply (rule exI[of _ w4], rule exI[of _ c3], rule exI[of _ w5], rule exI[of _ c4])
    apply (rule exI[of _ w6], rule exI[of _ result], rule exI[of _ self'], rule exI[of _ w'])
    apply (rule exI[of _ before], rule exI[of _ after])
    using a b c d e f g s refl' rd l4 cur r' lw ne n fin hist
    apply (intro conjI)
    apply assumption+
    done
qed

theorem two_channel_changes_per_cycle_witness:
  "[0] \<noteq> ([] :: real list)
   \<and> length [0 :: real] = n_features_in (detector (small_controller 5 0 plain_cipher))
   \<and> 2 \<le> card (set (channels (channel (small_controller 5 0 plain_cipher))))
   \<and> fair_draws (channels (channel (small_controller 5 0 plain_cipher))) (random_draws quiet_world)
   \<and> (\<exists>anomaly peak w1 ch2 w2 jamming w3 ch4 w4 c3 w5 c4 w6 result self' w' before after.
       detect_anomaly [0] 100 quiet_world = (Inr (anomaly, peak), w1)
     \<and> (if anomaly then switch_channel (channel (small_controller 5 0 plain_cipher)) w1
          else (Inr None, channel (small_controller 5 0 plain_cipher), w1))
           = (Inr None, ch2, w2)
     \<and> detect_jamming_pattern (detector (small_controller 5 0 plain_cipher)) [0] w2 = (Inr jamming, w3)
     \<and> (if jamming then switch_channel ch2 w3 else (Inr None, ch2, w3)) = (Inr None, ch4, w4)
     \<and> frequency_hopping ch4 w4 = Some (Inr None, ch4\<lparr>current_channel := c3\<rparr>, w5)
     \<and> c3 \<noteq> current_channel ch4
     \<and> recovery_strategy (ch4\<lparr>current_channel := c3\<rparr>) w5
           = (Inr None, ch4\<lparr>current_channel := c4\<rparr>, w6)
     \<and> switch_channel (ch4\<lparr>current_channel := c3\<rparr>) (emit RecoveryAttempt w5)
           = (Inr None, ch4\<lparr>current_channel := c4\<rparr>,
              w6\<lparr>log_lines := log_lines w5 @ [RecoveryAttempt, SwitchedTo c4]\<rparr>)
     \<and> self' = (small_controller 5 0 plain_cipher)\<lparr>channel := ch4\<lparr>current_channel := c4\<rparr>\<rparr>
     \<and> random_draws w' = random_draws w6
     \<and> log_lines w4 = log_lines quiet_world @ before
     \<and> current_channel ch4
          = last (channel_history (current_channel (channel (small_controller 5 0 plain_cipher))) before)
     \<and> monitor_and_respond (small_controller 5 0 plain_cipher) [0] quiet_world = Some (result, self', w')
     \<and> log_lines w' = log_lines quiet_world @ before @
           [HoppedTo c3, RecoveryAttempt, SwitchedTo c4, RecoveryInitiated] @ after
     \<and> c3 \<noteq> last (channel_history (current_channel (channel (small_controller 5 0 plain_cipher))) before)
     \<and> c4 \<noteq> c3
     \<and> current_channel (channel self') = c4
     \<and> channel_history (current_channel (channel (small_controller 5 0 plain_cipher)))
          (before @ [HoppedTo c3, RecoveryAttempt, SwitchedTo c4, RecoveryInitiated] @ after)
        = channel_history (current_channel (channel (small_controller 5 0 plain_cipher))) before @ [c3, c4])"
proof -
  note h = small_inputs(1) small_inputs(2)[of 5 0 plain_cipher] small_inputs(3)[of 5 0 plain_cipher]
           small_inputs(4)[of 5 0 plain_cipher]
  from two_channel_changes_per_cycle[OF h] h show ?thesis by (intro conjI)
qed

end
